theory Spec2Isabelle
  imports Main
begin

section \<open>JavaScript numbers and the built-in Date arithmetic\<close>

text \<open>
  The visual stores calendar days as JavaScript numbers: the milliseconds since the epoch
  of a UTC midnight. Every number the code handles is the result of \<open>Date.UTC\<close> or of
  \<open>getTime\<close>, so it is an integer or \<open>NaN\<close>. A \<open>Date\<close> object is its time value,
  again an integer or \<open>NaN\<close> (an invalid date).
\<close>

datatype num = NaN | Num int

text \<open>The comparisons \<open><\<close>, \<open>>\<close> and \<open><=\<close> of JavaScript: false as soon as one side is \<open>NaN\<close>.\<close>

fun num_lt :: "num \<Rightarrow> num \<Rightarrow> bool" where
  "num_lt (Num a) (Num b) = (a < b)"
| "num_lt _ _ = False"

fun num_le :: "num \<Rightarrow> num \<Rightarrow> bool" where
  "num_le (Num a) (Num b) = (a \<le> b)"
| "num_le _ _ = False"

text \<open>
  The day and year arithmetic of ECMA-262 (section "Date objects"), which the built-ins
  \<open>Date.UTC\<close>, \<open>getUTCFullYear\<close>, \<open>getUTCMonth\<close>, \<open>getUTCDate\<close>, \<open>getUTCDay\<close> and
  \<open>setUTCDate\<close> are defined by.
\<close>

definition msPerDay :: int where
  "msPerDay = 86400000"

definition Day :: "int \<Rightarrow> int" where
  "Day t = t div msPerDay"

definition TimeWithinDay :: "int \<Rightarrow> int" where
  "TimeWithinDay t = t mod msPerDay"

definition DayFromYear :: "int \<Rightarrow> int" where
  "DayFromYear y = 365 * (y - 1970) + (y - 1969) div 4 - (y - 1901) div 100 + (y - 1601) div 400"

definition InLeapYear :: "int \<Rightarrow> bool" where
  "InLeapYear y = (if y mod 4 \<noteq> 0 then False else if y mod 100 \<noteq> 0 then True else y mod 400 = 0)"

text \<open>
  ECMA-262 takes the year of a day to be the largest \<open>y\<close> with \<open>DayFromYear y \<le> d\<close>.
  The function below computes it: one division by the mean length of a year, then one
  step of correction (\<open>YearFromDay_lower\<close> and \<open>YearFromDay_upper\<close> show that it is
  that year).
\<close>

definition YearFromDay :: "int \<Rightarrow> int" where
  "YearFromDay d =
     (let y = 1970 + (400 * d) div 146097
      in if d < DayFromYear y then y - 1
         else if DayFromYear (y + 1) \<le> d then y + 1
         else y)"

definition YearFromTime :: "int \<Rightarrow> int" where
  "YearFromTime t = YearFromDay (Day t)"

definition DayWithinYear :: "int \<Rightarrow> int" where
  "DayWithinYear t = Day t - DayFromYear (YearFromTime t)"

text \<open>The number of days of the year before month \<open>m\<close> (0 is January).\<close>

definition monthStart :: "int \<Rightarrow> bool \<Rightarrow> int" where
  "monthStart m leap =
     (let l = (if leap then 1 else 0)
      in if m = 0 then 0
         else if m = 1 then 31
         else if m = 2 then 59 + l
         else if m = 3 then 90 + l
         else if m = 4 then 120 + l
         else if m = 5 then 151 + l
         else if m = 6 then 181 + l
         else if m = 7 then 212 + l
         else if m = 8 then 243 + l
         else if m = 9 then 273 + l
         else if m = 10 then 304 + l
         else 334 + l)"

definition MonthFromTime :: "int \<Rightarrow> int" where
  "MonthFromTime t =
     (let d = DayWithinYear t;
          l = (if InLeapYear (YearFromTime t) then 1 else 0)
      in if d < 31 then 0
         else if d < 59 + l then 1
         else if d < 90 + l then 2
         else if d < 120 + l then 3
         else if d < 151 + l then 4
         else if d < 181 + l then 5
         else if d < 212 + l then 6
         else if d < 243 + l then 7
         else if d < 273 + l then 8
         else if d < 304 + l then 9
         else if d < 334 + l then 10
         else 11)"

definition DateFromTime :: "int \<Rightarrow> int" where
  "DateFromTime t =
     DayWithinYear t - monthStart (MonthFromTime t) (InLeapYear (YearFromTime t)) + 1"

definition WeekDay :: "int \<Rightarrow> int" where
  "WeekDay t = (Day t + 4) mod 7"

text \<open>
  \<open>MakeDay\<close>: months beyond 0..11 carry into the year, and a day of the month beyond the
  month's length runs on into the following months (there is no validation).
\<close>

definition MakeDay :: "int \<Rightarrow> int \<Rightarrow> int \<Rightarrow> int" where
  "MakeDay year month date =
     (let ym = year + month div 12;
          mn = month mod 12
      in DayFromYear ym + monthStart mn (InLeapYear ym) + date - 1)"

definition maxTime :: int where
  "maxTime = 8640000000000000"

definition TimeClip :: "int \<Rightarrow> num" where
  "TimeClip t = (if t < - maxTime then NaN else if maxTime < t then NaN else Num t)"

text \<open>
  \<open>Date.UTC(year, month, date)\<close> on integers. A year from 0 to 99 stands for
  1900 + year.
\<close>

definition DateUTC :: "int \<Rightarrow> int \<Rightarrow> int \<Rightarrow> num" where
  "DateUTC y m d =
     (let yr = (if 0 \<le> y then (if y \<le> 99 then 1900 + y else y) else y)
      in TimeClip (MakeDay yr m d * msPerDay))"

text \<open>\<open>new Date(n)\<close> for a number \<open>n\<close>.\<close>

fun newDate :: "num \<Rightarrow> num" where
  "newDate NaN = NaN"
| "newDate (Num t) = TimeClip t"

text \<open>\<open>date.setUTCDate(dt)\<close>: the new time value.\<close>

definition setUTCDate :: "int \<Rightarrow> int \<Rightarrow> num" where
  "setUTCDate t dt =
     TimeClip (MakeDay (YearFromTime t) (MonthFromTime t) dt * msPerDay + TimeWithinDay t)"

section \<open>The visual\<close>

subsection \<open>Sets in insertion order\<close>

text \<open>
  A JavaScript \<open>Set\<close> keeps its members in insertion order, without duplicates;
  \<open>NaN\<close> is a member like any other.
\<close>

definition set_has :: "'a \<Rightarrow> 'a list \<Rightarrow> bool" where
  "set_has k s = (k \<in> set s)"

definition set_add :: "'a \<Rightarrow> 'a list \<Rightarrow> 'a list" where
  "set_add k s = (if k \<in> set s then s else s @ [k])"

definition set_delete :: "'a \<Rightarrow> 'a list \<Rightarrow> 'a list" where
  "set_delete k s = removeAll k s"

subsection \<open>State\<close>

datatype ViewMode = day | month | year

datatype StartOfWeek = Sunday | Monday

record CalendarSettings =
  startOfWeek :: StartOfWeek
  showWeekNumbers :: bool
  otherMonthFade :: bool
  showDOWHeader :: bool

record SelectionSettings =
  multiSelect :: bool
  rangeSelect :: bool
  stickySelection :: bool

record DateRangeSettings =
  respectDataRange :: bool
  minDate :: "string option"
  maxDate :: "string option"

record FilterTarget =
  table :: string
  column :: string

text \<open>
  The host's \<open>applyJsonFilter(filter, objectName, propertyName, action)\<close>. The actions of
  \<open>powerbi.FilterAction\<close> that the visual uses are \<open>merge\<close> and \<open>remove\<close>.
\<close>

datatype FilterAction = merge | remove

record BasicFilter =
  schema :: string
  target :: FilterTarget
  operator :: string
  filterValues :: "num list"

record HostCall =
  jsonFilter :: "BasicFilter option"
  objectName :: string
  propertyName :: string
  action :: FilterAction

text \<open>
  The fields of the class \<open>Visual\<close>. The selection identity stored for a key is the index
  of the category value it was built from; \<open>hostCalls\<close> is the sequence of calls of
  \<open>applyJsonFilter\<close> made on the host so far. The header and item settings hold colours,
  font sizes and captions only and are left out, with the DOM elements.
\<close>

record Visual =
  viewMode :: ViewMode
  cursorYear :: int
  cursorMonth :: int
  selectedKeys :: "num list"
  lastClickedKey :: "num option"
  settings :: CalendarSettings
  selectionSettings :: SelectionSettings
  dateRange :: DateRangeSettings
  identitiesByKey :: "num \<rightharpoonup> nat"
  selectableKeys :: "num list"
  minDataKey :: "num option"
  maxDataKey :: "num option"
  filterTarget :: "FilterTarget option"
  hostCalls :: "HostCall list"

text \<open>The state after the constructor; \<open>(y, m)\<close> is the local year and month of \<open>new Date()\<close>.\<close>

definition initial :: "int \<times> int \<Rightarrow> Visual" where
  "initial today =
     \<lparr> viewMode = day,
       cursorYear = fst today,
       cursorMonth = snd today,
       selectedKeys = [],
       lastClickedKey = None,
       settings = \<lparr> startOfWeek = Monday, showWeekNumbers = False,
                    otherMonthFade = True, showDOWHeader = False \<rparr>,
       selectionSettings = \<lparr> multiSelect = True, rangeSelect = True, stickySelection = True \<rparr>,
       dateRange = \<lparr> respectDataRange = True, minDate = None, maxDate = None \<rparr>,
       identitiesByKey = Map.empty,
       selectableKeys = [],
       minDataKey = None,
       maxDataKey = None,
       filterTarget = None,
       hostCalls = [] \<rparr>"

subsection \<open>parseISODate and atUTC\<close>

text \<open>
  The regular expression \<open>^\s*(\d{4})\-(\d{2})\-(\d{2})\s*$\<close>. A string is a list of
  code units below 256; of the characters that \<open>\s\<close> matches, those are tab, line feed,
  vertical tab, form feed, carriage return, space and the no-break space.
\<close>

definition isDigit :: "char \<Rightarrow> bool" where
  "isDigit c = (48 \<le> (of_char c :: nat) \<and> (of_char c :: nat) \<le> 57)"

definition isSpace :: "char \<Rightarrow> bool" where
  "isSpace c = ((of_char c :: nat) \<in> {9, 10, 11, 12, 13, 32, 160})"

definition matchISO :: "string \<Rightarrow> (string \<times> string \<times> string) option" where
  "matchISO s =
     (let t = dropWhile isSpace s;
          y = take 4 t;
          m = take 2 (drop 5 t);
          d = take 2 (drop 8 t);
          rest = drop 10 t
      in if length y = 4 \<and> list_all isDigit y
            \<and> take 1 (drop 4 t) = ''-''
            \<and> length m = 2 \<and> list_all isDigit m
            \<and> take 1 (drop 7 t) = ''-''
            \<and> length d = 2 \<and> list_all isDigit d
            \<and> list_all isSpace rest
         then Some (y, m, d) else None)"

text \<open>\<open>parseInt(s, 10)\<close> on a string of decimal digits.\<close>

definition parseInt :: "string \<Rightarrow> int" where
  "parseInt s = foldl (\<lambda>a c. 10 * a + (int (of_char c) - 48)) 0 s"

text \<open>The argument is \<open>None\<close> for \<open>undefined\<close>; the result is \<open>None\<close> for \<open>null\<close>.\<close>

definition parseISODate :: "string option \<Rightarrow> num option" where
  "parseISODate s =
     (case s of
        None \<Rightarrow> None
      | Some str \<Rightarrow>
          if str = [] then None
          else (case matchISO str of
                  None \<Rightarrow> None
                | Some (y, m, d) \<Rightarrow>
                    (case DateUTC (parseInt y) (parseInt m - 1) (parseInt d) of
                       NaN \<Rightarrow> None
                     | Num t \<Rightarrow> Some (Num t))))"

text \<open>
  \<open>atUTC(date)\<close>, and every other place where the source writes
  \<open>Date.UTC(d.getUTCFullYear(), d.getUTCMonth(), d.getUTCDate())\<close>: the getters of an
  invalid date are \<open>NaN\<close>, and so is \<open>Date.UTC\<close> of them.
\<close>

fun atUTC :: "num \<Rightarrow> num" where
  "atUTC NaN = NaN"
| "atUTC (Num t) = DateUTC (YearFromTime t) (MonthFromTime t) (DateFromTime t)"

text \<open>
  The step of the range walk:
  \<open>new Date(Date.UTC(cursor.getUTCFullYear(), cursor.getUTCMonth(), cursor.getUTCDate()+1))\<close>.
\<close>

fun nextDay :: "num \<Rightarrow> num" where
  "nextDay NaN = NaN"
| "nextDay (Num t) = DateUTC (YearFromTime t) (MonthFromTime t) (DateFromTime t + 1)"

subsection \<open>Facts about the Date arithmetic\<close>

text \<open>
  The walk over the days of a range ends because \<open>atUTC\<close> of the cursor grows with
  every step; the facts below establish that.
\<close>

lemma div_bnds:
  assumes "0 < (c::int)"
  shows "c * (x div c) \<le> x" and "x < c * (x div c) + c"
proof -
  have e: "x = c * (x div c) + x mod c" by simp
  have "0 \<le> x mod c" "x mod c < c" using assms by simp_all
  then show "c * (x div c) \<le> x" and "x < c * (x div c) + c" using e by linarith+
qed

lemma DayFromYear_upper: "400 * DayFromYear y \<le> 146097 * (y - 1970) + 589"
  unfolding DayFromYear_def
  using div_bnds[of 4 "y - 1969"] div_bnds[of 100 "y - 1901"] div_bnds[of 400 "y - 1601"]
  by simp

lemma DayFromYear_lower: "146097 * (y - 1970) - 506 \<le> 400 * DayFromYear y"
  unfolding DayFromYear_def
  using div_bnds[of 4 "y - 1969"] div_bnds[of 100 "y - 1901"] div_bnds[of 400 "y - 1601"]
  by simp

lemma MonthFromTime_range: "0 \<le> MonthFromTime t \<and> MonthFromTime t \<le> 11"
  by (simp add: MonthFromTime_def Let_def)

lemma MakeDay_month: "0 \<le> m \<Longrightarrow> m \<le> 11 \<Longrightarrow> MakeDay y m d = DayFromYear y + monthStart m (InLeapYear y) + d - 1"
  by (simp add: MakeDay_def Let_def)

lemma MakeDay_roundtrip: "MakeDay (YearFromTime t) (MonthFromTime t) (DateFromTime t) = Day t"
  using MonthFromTime_range[of t]
  by (simp add: MakeDay_month DateFromTime_def DayWithinYear_def)

lemma MakeDay_next: "MakeDay y m (d + 1) = MakeDay y m d + 1"
  by (simp add: MakeDay_def Let_def)

lemma monthStart_leap: "monthStart m False \<le> monthStart m b \<and> monthStart m b \<le> monthStart m False + 1"
  by (simp add: monthStart_def Let_def)

lemma MakeDay_century:
  assumes "0 \<le> y" "y \<le> 99" "0 \<le> m" "m \<le> 11"
  shows "MakeDay y m d \<le> MakeDay (1900 + y) m d"
proof -
  have "400 * DayFromYear y + 400 \<le> 400 * DayFromYear (1900 + y)"
    using DayFromYear_upper[of y] DayFromYear_lower[of "1900 + y"] by simp
  then have "DayFromYear y + 1 \<le> DayFromYear (1900 + y)" by simp
  then show ?thesis
    using assms monthStart_leap[of m "InLeapYear y"] monthStart_leap[of m "InLeapYear (1900 + y)"]
    by (simp add: MakeDay_month)
qed

lemma atUTC_ge:
  assumes "atUTC (Num t) = Num c"
  shows "Day t * msPerDay \<le> c"
proof -
  let ?Y = "YearFromTime t" and ?M = "MonthFromTime t" and ?D = "DateFromTime t"
  have m: "0 \<le> ?M" "?M \<le> 11" using MonthFromTime_range[of t] by simp_all
  show ?thesis
  proof (cases "0 \<le> ?Y \<and> ?Y \<le> 99")
    case True
    then have "c = MakeDay (1900 + ?Y) ?M ?D * msPerDay"
      using assms by (simp add: DateUTC_def TimeClip_def Let_def split: if_splits)
    moreover have "Day t \<le> MakeDay (1900 + ?Y) ?M ?D"
      using MakeDay_century[of ?Y ?M ?D] True m MakeDay_roundtrip[of t] by simp
    ultimately show ?thesis by (simp add: msPerDay_def)
  next
    case False
    then have "c = MakeDay ?Y ?M ?D * msPerDay"
      using assms by (auto simp add: DateUTC_def TimeClip_def Let_def split: if_splits)
    then show ?thesis by (simp add: MakeDay_roundtrip)
  qed
qed

lemma atUTC_aligned:
  assumes "atUTC d = Num c"
  shows "Day c * msPerDay = c"
proof (cases d)
  case NaN
  with assms show ?thesis by simp
next
  case (Num t)
  then obtain k where "c = k * msPerDay"
    using assms by (auto simp add: DateUTC_def TimeClip_def Let_def split: if_splits)
  then show ?thesis by (simp add: Day_def msPerDay_def)
qed

lemma DateUTC_next:
  assumes "DateUTC y m d = Num c"
  shows "DateUTC y m (d + 1) = TimeClip (c + msPerDay)"
  using assms
  by (simp add: DateUTC_def TimeClip_def Let_def MakeDay_next distrib_right split: if_splits)

lemma nextDay_eq:
  assumes "atUTC d = Num c"
  shows "nextDay d = TimeClip (c + msPerDay)"
proof (cases d)
  case NaN
  with assms show ?thesis by simp
next
  case (Num t)
  then show ?thesis using assms by (simp add: DateUTC_next)
qed

lemma atUTC_nextDay:
  assumes "atUTC d = Num c" and "atUTC (nextDay d) = Num c'"
  shows "c < c'"
proof -
  have n: "nextDay d = TimeClip (c + msPerDay)" using assms(1) by (rule nextDay_eq)
  with assms(2) have e: "nextDay d = Num (c + msPerDay)"
    by (cases "nextDay d") (auto simp add: TimeClip_def split: if_splits)
  have "Day (c + msPerDay) * msPerDay \<le> c'"
    using assms(2) e atUTC_ge[of "c + msPerDay" c'] by simp
  moreover have "Day (c + msPerDay) = Day c + 1"
    by (simp add: Day_def msPerDay_def)
  ultimately show ?thesis
    using atUTC_aligned[OF assms(1)] by (simp add: algebra_simps msPerDay_def)
qed

subsection \<open>readSettings\<close>

text \<open>
  The objects of the data view's metadata that \<open>readSettings\<close> reads into the modelled
  settings. A property is \<open>None\<close> when it is \<open>undefined\<close> (for \<open>minDate\<close> and
  \<open>maxDate\<close>: when it is not a string). A data view that is \<open>undefined\<close> has no objects
  and no categories.
\<close>

record Objects =
  o_startOfWeek :: "StartOfWeek option"
  o_showWeekNumbers :: "bool option"
  o_otherMonthFade :: "bool option"
  o_showDOWHeader :: "bool option"
  o_multiSelect :: "bool option"
  o_rangeSelect :: "bool option"
  o_stickySelection :: "bool option"
  o_respectDataRange :: "bool option"
  o_minDate :: "string option"
  o_maxDate :: "string option"

definition orElse :: "'a option \<Rightarrow> 'a \<Rightarrow> 'a" where
  "orElse v d = (case v of None \<Rightarrow> d | Some x \<Rightarrow> x)"

definition readSettings :: "Objects \<Rightarrow> Visual \<Rightarrow> Visual" where
  "readSettings ob st =
     st\<lparr> settings :=
           \<lparr> startOfWeek = orElse (o_startOfWeek ob) (startOfWeek (settings st)),
             showWeekNumbers = orElse (o_showWeekNumbers ob) (showWeekNumbers (settings st)),
             otherMonthFade = orElse (o_otherMonthFade ob) (otherMonthFade (settings st)),
             showDOWHeader = orElse (o_showDOWHeader ob) (showDOWHeader (settings st)) \<rparr>,
         selectionSettings :=
           \<lparr> multiSelect = orElse (o_multiSelect ob) (multiSelect (selectionSettings st)),
             rangeSelect = orElse (o_rangeSelect ob) (rangeSelect (selectionSettings st)),
             stickySelection = orElse (o_stickySelection ob) (stickySelection (selectionSettings st)) \<rparr>,
         dateRange :=
           \<lparr> respectDataRange = orElse (o_respectDataRange ob) (respectDataRange (dateRange st)),
             minDate = (case o_minDate ob of None \<Rightarrow> minDate (dateRange st) | Some s \<Rightarrow> Some s),
             maxDate = (case o_maxDate ob of None \<Rightarrow> maxDate (dateRange st) | Some s \<Rightarrow> Some s) \<rparr> \<rparr>"

subsection \<open>loadData\<close>

text \<open>
  A category value is \<open>null\<close>, a \<open>Date\<close> (its time value), or anything else; of a value
  that is not a \<open>Date\<close> the code observes \<open>String(v)\<close> and the time value of
  \<open>new Date(v)\<close>, which are what \<open>OtherValue\<close> carries.
\<close>

datatype RawValue = NullValue | DateValue num | OtherValue string num

record Category =
  queryName :: "string option"
  catValues :: "RawValue list"

record DataView =
  objects :: Objects
  categories :: "Category list"

text \<open>\<open>s.lastIndexOf(c)\<close>: the last index of \<open>c\<close>, or -1.\<close>

fun lastIndexOf :: "char \<Rightarrow> string \<Rightarrow> int" where
  "lastIndexOf c [] = - 1"
| "lastIndexOf c (x # xs) =
     (let r = lastIndexOf c xs
      in if 0 \<le> r then r + 1 else if x = c then 0 else - 1)"

definition deriveFilterTarget :: "string option \<Rightarrow> FilterTarget option" where
  "deriveFilterTarget qn =
     (case qn of
        None \<Rightarrow> None
      | Some q \<Rightarrow>
          (let dot = lastIndexOf (CHR ''.'') q
           in if 0 < dot
              then Some \<lparr> table = take (nat dot) q, column = drop (nat (dot + 1)) q \<rparr>
              else None))"

text \<open>The date \<open>d\<close> of one category value, \<open>None\<close> where the loop continues without one.\<close>

definition valueDate :: "RawValue \<Rightarrow> num option" where
  "valueDate v =
     (case v of
        NullValue \<Rightarrow> None
      | DateValue t \<Rightarrow> Some (atUTC t)
      | OtherValue s g \<Rightarrow>
          (case parseISODate (Some s) of
             Some d \<Rightarrow> Some d
           | None \<Rightarrow> (case g of NaN \<Rightarrow> None | Num t \<Rightarrow> Some (atUTC (Num t)))))"

text \<open>One turn of the loop over the values, at index \<open>i\<close>.\<close>

definition loadValue :: "Visual \<Rightarrow> nat \<times> RawValue \<Rightarrow> Visual" where
  "loadValue st iv =
     (case valueDate (snd iv) of
        None \<Rightarrow> st
      | Some d \<Rightarrow>
          (let key = atUTC d
           in st\<lparr> identitiesByKey := (identitiesByKey st)(key \<mapsto> fst iv),
                  selectableKeys := set_add key (selectableKeys st),
                  minDataKey :=
                    (case minDataKey st of
                       None \<Rightarrow> Some key
                     | Some m \<Rightarrow> if num_lt key m then Some key else Some m),
                  maxDataKey :=
                    (case maxDataKey st of
                       None \<Rightarrow> Some key
                     | Some m \<Rightarrow> if num_lt m key then Some key else Some m) \<rparr>))"

text \<open>\<open>today\<close> is the local year and month of \<open>new Date()\<close> at the call.\<close>

definition loadData :: "int \<times> int \<Rightarrow> DataView \<Rightarrow> Visual \<Rightarrow> Visual" where
  "loadData today dv st =
     (let st0 = st\<lparr> identitiesByKey := Map.empty, selectableKeys := [],
                     minDataKey := None, maxDataKey := None, filterTarget := None \<rparr>
      in case categories dv of
           [] \<Rightarrow> st0\<lparr> cursorYear := fst today, cursorMonth := snd today \<rparr>
         | cat # _ \<Rightarrow>
             foldl loadValue (st0\<lparr> filterTarget := deriveFilterTarget (queryName cat) \<rparr>)
               (enumerate 0 (catValues cat)))"

text \<open>\<open>update\<close>: the theme and the rendering change no field of the state.\<close>

definition update :: "int \<times> int \<Rightarrow> DataView \<Rightarrow> Visual \<Rightarrow> Visual" where
  "update today dv st = loadData today dv (readSettings (objects dv) st)"

subsection \<open>Selection and filtering\<close>

text \<open>
  The loop of \<open>handleClickDate\<close> that walks from the start of a range to its end, one
  day at a time, and collects the keys that are in \<open>selectableKeys\<close>.
\<close>

function rangeWalk :: "num list \<Rightarrow> num \<Rightarrow> num \<Rightarrow> num list \<Rightarrow> num list" where
  "rangeWalk selectable endDate cursor keys =
     (if num_le (atUTC cursor) (atUTC endDate)
      then rangeWalk selectable endDate (nextDay cursor)
             (if set_has (atUTC cursor) selectable then keys @ [atUTC cursor] else keys)
      else keys)"
  by pat_completeness auto
termination
proof (relation "measure (\<lambda>(selectable, endDate, cursor, keys).
         case atUTC endDate of
           NaN \<Rightarrow> 0
         | Num e \<Rightarrow> (case atUTC cursor of NaN \<Rightarrow> 0 | Num c \<Rightarrow> nat (e - c + 1)))")
  show "wf (measure (\<lambda>(selectable, endDate, cursor, keys).
         case atUTC endDate of
           NaN \<Rightarrow> 0
         | Num e \<Rightarrow> (case atUTC cursor of NaN \<Rightarrow> 0 | Num c \<Rightarrow> nat (e - c + 1))))"
    by simp
next
  fix selectable :: "num list" and endDate cursor :: num and keys :: "num list"
  assume le: "num_le (atUTC cursor) (atUTC endDate)"
  then obtain c e where c: "atUTC cursor = Num c" and e: "atUTC endDate = Num e" and ce: "c \<le> e"
    by (cases "atUTC cursor"; cases "atUTC endDate") auto
  show "((selectable, endDate, nextDay cursor,
          if set_has (atUTC cursor) selectable then keys @ [atUTC cursor] else keys),
         (selectable, endDate, cursor, keys))
        \<in> measure (\<lambda>(selectable, endDate, cursor, keys).
         case atUTC endDate of
           NaN \<Rightarrow> 0
         | Num e \<Rightarrow> (case atUTC cursor of NaN \<Rightarrow> 0 | Num c \<Rightarrow> nat (e - c + 1)))"
  proof (cases "atUTC (nextDay cursor)")
    case NaN
    then show ?thesis using c e ce by simp
  next
    case (Num c')
    then have "c < c'" using atUTC_nextDay[OF c] by simp
    then show ?thesis using c e ce Num by simp
  qed
qed

declare rangeWalk.simps [simp del]

text \<open>The modifier keys of the mouse or keyboard event that a handler receives.\<close>

record MouseEvent =
  ctrlKey :: bool
  metaKey :: bool
  shiftKey :: bool

text \<open>
  \<open>applyFilterForKeys\<close> returns at once when there is no filter target. Otherwise it
  replaces the selection by the keys, or adds them to it, and sends the dates of the whole
  selection to the host as one "In" filter; \<open>setToArray\<close> of a set is the list of its
  members.
\<close>

definition applyFilterForKeys :: "num list \<Rightarrow> bool \<Rightarrow> Visual \<Rightarrow> Visual" where
  "applyFilterForKeys keys additive st =
     (case filterTarget st of
        None \<Rightarrow> st
      | Some tg \<Rightarrow>
          (let sel = foldl (\<lambda>s k. set_add k s) (if additive then selectedKeys st else []) keys;
               flt = \<lparr> schema = ''http://powerbi.com/product/schema#basic'',
                       target = \<lparr> table = table tg, column = column tg \<rparr>,
                       operator = ''In'',
                       filterValues = map newDate sel \<rparr>
           in st\<lparr> selectedKeys := sel,
                  hostCalls := hostCalls st @
                    [\<lparr> jsonFilter = Some flt, objectName = ''general'',
                       propertyName = ''filter'', action = merge \<rparr>] \<rparr>))"

text \<open>
  \<open>handleClickDate\<close>. The flag \<open>rangeKey\<close> of the source holds exactly when
  \<open>rangeAnchor\<close> is \<open>Some a\<close>, and \<open>a\<close> is then the last clicked key. The rendering
  at the end of each branch changes no field of the state.
\<close>

definition handleClickDate :: "num \<Rightarrow> MouseEvent \<Rightarrow> Visual \<Rightarrow> Visual" where
  "handleClickDate key ev st =
     (let multiKey = (multiSelect (selectionSettings st) \<and> (ctrlKey ev \<or> metaKey ev));
          rangeAnchor = (if rangeSelect (selectionSettings st) \<and> shiftKey ev
                         then lastClickedKey st else None)
      in case rangeAnchor of
           Some a \<Rightarrow>
             (let start = (if num_lt key a then key else a);
                  endKey = (if num_lt key a then a else key);
                  keys = rangeWalk (selectableKeys st) (newDate endKey) (newDate start) []
              in (applyFilterForKeys keys True st)\<lparr> lastClickedKey := Some key \<rparr>)
         | None \<Rightarrow>
             (let st1 =
                (if multiKey
                 then (let st' = st\<lparr> selectedKeys :=
                                     (if set_has key (selectedKeys st)
                                      then set_delete key (selectedKeys st)
                                      else set_add key (selectedKeys st)) \<rparr>
                       in applyFilterForKeys (selectedKeys st') True st')
                 else applyFilterForKeys [key] False (st\<lparr> selectedKeys := [key] \<rparr>))
              in st1\<lparr> lastClickedKey := Some key \<rparr>))"

text \<open>\<open>clearSelection\<close>: with a filter target, one call with no filter and the action \<open>remove\<close>.\<close>

definition clearSelection :: "Visual \<Rightarrow> Visual" where
  "clearSelection st =
     st\<lparr> selectedKeys := [],
         lastClickedKey := None,
         hostCalls :=
           (case filterTarget st of
              None \<Rightarrow> hostCalls st
            | Some tg \<Rightarrow> hostCalls st @
                [\<lparr> jsonFilter = None, objectName = ''general'',
                   propertyName = ''filter'', action = remove \<rparr>]) \<rparr>"

text \<open>
  \<open>getISOWeek\<close>. Both \<open>date\<close> and \<open>yearStart\<close> are UTC midnights, so their
  difference is a whole number of days and the division by 86400000 is exact;
  \<open>Math.ceil(x / 7)\<close> on an integer \<open>x\<close> is \<open>- ((- x) div 7)\<close>.
\<close>

definition getISOWeek :: "num \<Rightarrow> num" where
  "getISOWeek d =
     (case atUTC d of
        NaN \<Rightarrow> NaN
      | Num t0 \<Rightarrow>
          (let dayNo = (if WeekDay t0 = 0 then 7 else WeekDay t0)
           in case setUTCDate t0 (DateFromTime t0 + 4 - dayNo) of
                NaN \<Rightarrow> NaN
              | Num t1 \<Rightarrow>
                  (case DateUTC (YearFromTime t1) 0 1 of
                     NaN \<Rightarrow> NaN
                   | Num yearStart \<Rightarrow>
                       (let diffDays = (t1 - yearStart) div msPerDay + 1
                        in Num (- ((- diffDays) div 7))))))"

text \<open>The column of a day of the week (0 is Sunday) in a week that starts as configured.\<close>

definition getStartOfWeekOffset :: "Visual \<Rightarrow> int \<Rightarrow> int" where
  "getStartOfWeekOffset st dow0Sunday =
     (if startOfWeek (settings st) = Monday
      then (if dow0Sunday = 0 then 6 else dow0Sunday - 1)
      else dow0Sunday)"

text \<open>\<open>Math.max\<close> and \<open>Math.min\<close> of two numbers.\<close>

fun num_max :: "num \<Rightarrow> num \<Rightarrow> num" where
  "num_max (Num a) (Num b) = Num (max a b)"
| "num_max _ _ = NaN"

fun num_min :: "num \<Rightarrow> num \<Rightarrow> num" where
  "num_min (Num a) (Num b) = Num (min a b)"
| "num_min _ _ = NaN"

text \<open>The clamps \<open>minKey\<close> and \<open>maxKey\<close> that \<open>renderDayGrid\<close> computes first.\<close>

definition dayGridClamps :: "Visual \<Rightarrow> num option \<times> num option" where
  "dayGridClamps st =
     (let cfgMinKey = map_option atUTC (parseISODate (minDate (dateRange st)));
          cfgMaxKey = map_option atUTC (parseISODate (maxDate (dateRange st)))
      in if \<not> respectDataRange (dateRange st) then (cfgMinKey, cfgMaxKey)
         else ((case cfgMinKey of
                  None \<Rightarrow> minDataKey st
                | Some c \<Rightarrow> (case minDataKey st of None \<Rightarrow> Some c | Some k \<Rightarrow> Some (num_max k c))),
               (case cfgMaxKey of
                  None \<Rightarrow> maxDataKey st
                | Some c \<Rightarrow> (case maxDataKey st of None \<Rightarrow> Some c | Some k \<Rightarrow> Some (num_min k c)))))"

text \<open>
  What \<open>renderDayGrid\<close> puts into one cell: its key, the day of the month shown, the
  classes (in the month or not, selectable or disabled, selected), whether the click and
  key handlers are attached, and the week number written before the cell, if any.
\<close>

record Cell =
  cellKey :: num
  cellText :: num
  inMonth :: bool
  selectable :: bool
  selected :: bool
  clickable :: bool
  weekNum :: "num option"

text \<open>The body of the loop over the 42 cells, at index \<open>i\<close>.\<close>

definition dayCell :: "Visual \<Rightarrow> num \<Rightarrow> nat \<Rightarrow> Cell" where
  "dayCell st firstCellDate i =
     (let dt = (case firstCellDate of
                  NaN \<Rightarrow> NaN
                | Num f \<Rightarrow> DateUTC (YearFromTime f) (MonthFromTime f) (DateFromTime f + int i));
          k = atUTC dt;
          isDataDate = set_has k (selectableKeys st)
      in \<lparr> cellKey = k,
           cellText = (case dt of NaN \<Rightarrow> NaN | Num t \<Rightarrow> Num (DateFromTime t)),
           inMonth = (case dt of NaN \<Rightarrow> False | Num t \<Rightarrow> MonthFromTime t = cursorMonth st),
           selectable = isDataDate,
           selected = set_has k (selectedKeys st),
           clickable = isDataDate,
           weekNum = (if showWeekNumbers (settings st) \<and> i mod 7 = 0
                      then Some (getISOWeek dt) else None) \<rparr>)"

text \<open>The date of the first of the 42 cells: the start of the week of the first of the month.\<close>

definition firstCellDate :: "Visual \<Rightarrow> num" where
  "firstCellDate st =
     (let y = cursorYear st;
          m = cursorMonth st
      in case DateUTC y m 1 of
           NaN \<Rightarrow> NaN
         | Num first \<Rightarrow> DateUTC y m (1 - getStartOfWeekOffset st (WeekDay first)))"

text \<open>
  The cells of the day grid. The clamps \<open>minKey\<close> and \<open>maxKey\<close> are computed and then
  used nowhere, as in the source.
\<close>

definition renderDayGrid :: "Visual \<Rightarrow> Cell list" where
  "renderDayGrid st =
     (let (minKey, maxKey) = dayGridClamps st
      in map (dayCell st (firstCellDate st)) [0 ..< 42])"

text \<open>
  A click (or Enter or space) on cell \<open>i\<close> of the day grid as last rendered. The grid
  is rendered after every change of the state, only in the day view, and a cell has a
  handler only if it is clickable; the listener on the root element acts on clicks whose
  target is the root itself, so it ignores clicks on cells.
\<close>

definition clickCell :: "nat \<Rightarrow> MouseEvent \<Rightarrow> Visual \<Rightarrow> Visual" where
  "clickCell i ev st =
     (if viewMode st = day \<and> i < 42
      then (let c = renderDayGrid st ! i
            in if clickable c then handleClickDate (cellKey c) ev st else st)
      else st)"

subsection \<open>Sequences of events\<close>

text \<open>
  The events that reach the visual: a data update, a click on a cell of the day grid, the
  Clear button (or a click on the root without sticky selection), and navigation.
  \<open>Navigate\<close> stands for every navigation control (previous, next, title, mode
  button, month and year cells): they write the view mode and the cursor and nothing else,
  and \<open>Navigate\<close> may write any values there.
\<close>

datatype Event =
    Update "int \<times> int" DataView
  | ClickCell nat MouseEvent
  | Clear
  | Navigate ViewMode int int

fun step :: "Event \<Rightarrow> Visual \<Rightarrow> Visual" where
  "step (Update today dv) st = update today dv st"
| "step (ClickCell i ev) st = clickCell i ev st"
| "step Clear st = clearSelection st"
| "step (Navigate v y m) st = st\<lparr> viewMode := v, cursorYear := y, cursorMonth := m \<rparr>"

definition run :: "Event list \<Rightarrow> Visual \<Rightarrow> Visual" where
  "run evs st = foldl (\<lambda>s e. step e s) st evs"

text \<open>
  A data update keeps the selection available when every selected key is among the
  selectable keys of the new data; a sequence of events is admissible when each of its
  updates does.
\<close>

fun keepsSelected :: "Event \<Rightarrow> Visual \<Rightarrow> bool" where
  "keepsSelected (Update today dv) st =
     list_all (\<lambda>k. set_has k (selectableKeys (update today dv st))) (selectedKeys st)"
| "keepsSelected (ClickCell i ev) st = True"
| "keepsSelected Clear st = True"
| "keepsSelected (Navigate v y m) st = True"

fun admissible :: "Event list \<Rightarrow> Visual \<Rightarrow> bool" where
  "admissible [] st = True"
| "admissible (e # es) st = (keepsSelected e st \<and> admissible es (step e st))"

text \<open>
  The part of a state that the properties of the selection are about: the selected keys,
  the last clicked key, the selectable keys, the filter target and the actions of the
  requests made on the host.
\<close>

definition selectionView ::
  "Visual \<Rightarrow> num list \<times> num option \<times> num list \<times> FilterTarget option \<times> FilterAction list" where
  "selectionView st =
     (selectedKeys st, lastClickedKey st, selectableKeys st, filterTarget st,
      map action (hostCalls st))"

subsection \<open>Example inputs\<close>

text \<open>A data view's objects with no property set.\<close>

definition noObjects :: Objects where
  "noObjects = \<lparr> o_startOfWeek = None, o_showWeekNumbers = None, o_otherMonthFade = None,
     o_showDOWHeader = None, o_multiSelect = None, o_rangeSelect = None,
     o_stickySelection = None, o_respectDataRange = None, o_minDate = None, o_maxDate = None \<rparr>"

text \<open>A data view with one category of ISO date strings, bound under the query name \<open>qn\<close>.\<close>

definition isoData :: "string option \<Rightarrow> string list \<Rightarrow> DataView" where
  "isoData qn days =
     \<lparr> objects = noObjects,
       categories = [\<lparr> queryName = qn, catValues = map (\<lambda>s. OtherValue s NaN) days \<rparr>] \<rparr>"

text \<open>The settings objects that show week numbers in weeks starting on Sunday.\<close>

definition weekObjects :: Objects where
  "weekObjects = noObjects\<lparr> o_startOfWeek := Some Sunday, o_showWeekNumbers := Some True \<rparr>"

definition plainClick :: MouseEvent where
  "plainClick = \<lparr> ctrlKey = False, metaKey = False, shiftKey = False \<rparr>"

definition shiftClick :: MouseEvent where
  "shiftClick = \<lparr> ctrlKey = False, metaKey = False, shiftKey = True \<rparr>"

text \<open>
  The keys of 1 to 8 March 2024. In the grid of March 2024 with weeks starting on Monday,
  cell 0 is 26 February and cell \<open>n + 3\<close> is March \<open>n\<close>.
\<close>

definition march2024 :: "int \<Rightarrow> num" where
  "march2024 n = Num (1709251200000 + (n - 1) * 86400000)"

subsection \<open>The ISO 8601 week number\<close>

text \<open>
  The week number as ISO 8601 defines it, on day numbers (days since the epoch; day 0 is a
  Thursday). Weeks run from Monday to Sunday. \<open>thursdayOfWeek n\<close> is the Thursday of the
  week of day \<open>n\<close>; the year of that Thursday is the year of the week; week 1 is the week
  of the first Thursday of that year, \<open>firstThursday\<close>.
\<close>

definition thursdayOfWeek :: "int \<Rightarrow> int" where
  "thursdayOfWeek n = n - (n + 3) mod 7 + 3"

definition firstThursday :: "int \<Rightarrow> int" where
  "firstThursday y = DayFromYear y + (- DayFromYear y) mod 7"

definition iso8601_week :: "int \<Rightarrow> int" where
  "iso8601_week n =
     (let th = thursdayOfWeek n
      in (th - firstThursday (YearFromDay th)) div 7 + 1)"

section \<open>Properties\<close>

subsection \<open>Auxiliary facts\<close>

lemma clickCell_cell [code]:
  "clickCell i ev st =
     (if viewMode st = day \<and> i < 42
      then (let c = dayCell st (firstCellDate st) i
            in if clickable c then handleClickDate (cellKey c) ev st else st)
      else st)"
  by (simp add: clickCell_def renderDayGrid_def Let_def split: prod.splits)

lemma renderDayGrid_clickable:
  assumes "i < 42"
  shows "clickable (renderDayGrid st ! i)
           = set_has (cellKey (renderDayGrid st ! i)) (selectableKeys st)"
  using assms by (simp add: renderDayGrid_def dayCell_def Let_def split: prod.splits)

lemma set_foldl_set_add: "set (foldl (\<lambda>s k. set_add k s) acc keys) = set acc \<union> set keys"
  by (induction keys arbitrary: acc) (auto simp add: set_add_def)

lemma rangeWalk_subset:
  "set (rangeWalk sel endDate cursor keys) \<subseteq> set keys \<union> set sel"
proof (induction sel endDate cursor keys rule: rangeWalk.induct)
  case (1 sel endDate cursor keys)
  show ?case
  proof (cases "num_le (atUTC cursor) (atUTC endDate)")
    case True
    then show ?thesis
      using "1.IH" by (subst rangeWalk.simps) (auto simp add: set_has_def split: if_splits)
  next
    case False
    then show ?thesis by (subst rangeWalk.simps) simp
  qed
qed

lemma applyFilterForKeys_selectedKeys:
  "set (selectedKeys (applyFilterForKeys keys additive st))
     \<subseteq> set (selectedKeys st) \<union> set keys"
  by (cases "filterTarget st")
     (auto simp add: applyFilterForKeys_def Let_def set_foldl_set_add split: if_splits)

lemma applyFilterForKeys_selectableKeys:
  "selectableKeys (applyFilterForKeys keys additive st) = selectableKeys st"
  by (cases "filterTarget st") (simp_all add: applyFilterForKeys_def Let_def)

lemma handleClickDate_selectableKeys:
  "selectableKeys (handleClickDate key ev st) = selectableKeys st"
  by (simp add: handleClickDate_def Let_def applyFilterForKeys_selectableKeys
           split: option.splits)

lemma handleClickDate_contained:
  assumes "set (selectedKeys st) \<subseteq> set (selectableKeys st)"
    and "set_has key (selectableKeys st)"
  shows "set (selectedKeys (handleClickDate key ev st)) \<subseteq> set (selectableKeys st)"
proof -
  have k: "key \<in> set (selectableKeys st)" using assms(2) by (simp add: set_has_def)
  show ?thesis
  proof (cases "if rangeSelect (selectionSettings st) \<and> shiftKey ev then lastClickedKey st else None")
    case (Some a)
    let ?keys = "rangeWalk (selectableKeys st)
                   (newDate (if num_lt key a then a else key))
                   (newDate (if num_lt key a then key else a)) []"
    have "set ?keys \<subseteq> set (selectableKeys st)"
      using rangeWalk_subset[of "selectableKeys st" _ _ "[]"] by simp
    then have "set (selectedKeys (applyFilterForKeys ?keys True st)) \<subseteq> set (selectableKeys st)"
      using applyFilterForKeys_selectedKeys[of ?keys True st] assms(1) by blast
    then show ?thesis using Some by (simp add: handleClickDate_def Let_def)
  next
    case None
    show ?thesis
    proof (cases "multiSelect (selectionSettings st) \<and> (ctrlKey ev \<or> metaKey ev)")
      case True
      let ?st' = "st\<lparr> selectedKeys := (if set_has key (selectedKeys st)
                                        then set_delete key (selectedKeys st)
                                        else set_add key (selectedKeys st)) \<rparr>"
      have "set (selectedKeys ?st') \<subseteq> set (selectableKeys st)"
        using assms(1) k by (auto simp add: set_delete_def set_add_def)
      then have "set (selectedKeys (applyFilterForKeys (selectedKeys ?st') True ?st'))
                   \<subseteq> set (selectableKeys st)"
        using applyFilterForKeys_selectedKeys[of "selectedKeys ?st'" True ?st'] by blast
      then show ?thesis using None True by (simp add: handleClickDate_def Let_def)
    next
      case False
      let ?st' = "st\<lparr> selectedKeys := [key] \<rparr>"
      have "set (selectedKeys (applyFilterForKeys [key] False ?st')) \<subseteq> set (selectableKeys st)"
        using applyFilterForKeys_selectedKeys[of "[key]" False ?st'] k by auto
      then show ?thesis using None False by (auto simp add: handleClickDate_def Let_def)
    qed
  qed
qed

lemma clickCell_contained:
  assumes "set (selectedKeys st) \<subseteq> set (selectableKeys st)"
  shows "set (selectedKeys (clickCell i ev st)) \<subseteq> set (selectableKeys (clickCell i ev st))"
proof (cases "viewMode st = day \<and> i < 42 \<and> clickable (renderDayGrid st ! i)")
  case True
  then have "set_has (cellKey (renderDayGrid st ! i)) (selectableKeys st)"
    using renderDayGrid_clickable[of i st] by simp
  then show ?thesis
    using True assms handleClickDate_contained[of st "cellKey (renderDayGrid st ! i)" ev]
    by (simp add: clickCell_def Let_def handleClickDate_selectableKeys)
next
  case False
  then show ?thesis using assms by (auto simp add: clickCell_def Let_def)
qed

lemma loadValue_keeps:
  "selectedKeys (loadValue st iv) = selectedKeys st
   \<and> lastClickedKey (loadValue st iv) = lastClickedKey st
   \<and> hostCalls (loadValue st iv) = hostCalls st"
  by (simp add: loadValue_def Let_def split: option.splits)

lemma foldl_loadValue_keeps:
  "selectedKeys (foldl loadValue st ivs) = selectedKeys st
   \<and> lastClickedKey (foldl loadValue st ivs) = lastClickedKey st
   \<and> hostCalls (foldl loadValue st ivs) = hostCalls st"
  by (induction ivs arbitrary: st) (simp_all add: loadValue_keeps)

lemma loadData_keeps:
  "selectedKeys (loadData today dv st) = selectedKeys st
   \<and> lastClickedKey (loadData today dv st) = lastClickedKey st
   \<and> hostCalls (loadData today dv st) = hostCalls st"
  by (simp add: loadData_def Let_def foldl_loadValue_keeps split: list.splits)

lemma readSettings_keeps:
  "selectedKeys (readSettings ob st) = selectedKeys st
   \<and> lastClickedKey (readSettings ob st) = lastClickedKey st
   \<and> hostCalls (readSettings ob st) = hostCalls st"
  by (simp add: readSettings_def)

lemma update_keeps:
  "selectedKeys (update today dv st) = selectedKeys st
   \<and> lastClickedKey (update today dv st) = lastClickedKey st
   \<and> hostCalls (update today dv st) = hostCalls st"
  by (simp add: update_def loadData_keeps readSettings_keeps)

lemma step_contained:
  assumes "set (selectedKeys st) \<subseteq> set (selectableKeys st)" and "keepsSelected e st"
  shows "set (selectedKeys (step e st)) \<subseteq> set (selectableKeys (step e st))"
proof (cases e)
  case (Update today dv)
  then show ?thesis
    using assms(2) by (auto simp add: update_keeps list_all_iff set_has_def)
next
  case (ClickCell i ev)
  then show ?thesis using assms(1) by (simp add: clickCell_contained)
next
  case Clear
  then show ?thesis by (simp add: clearSelection_def)
next
  case (Navigate v y m)
  then show ?thesis using assms(1) by simp
qed

lemma run_contained:
  "set (selectedKeys st) \<subseteq> set (selectableKeys st) \<Longrightarrow> admissible evs st \<Longrightarrow>
   set (selectedKeys (run evs st)) \<subseteq> set (selectableKeys (run evs st))"
proof (induction evs arbitrary: st)
  case Nil
  then show ?case by (simp add: run_def)
next
  case (Cons e es)
  have "set (selectedKeys (step e st)) \<subseteq> set (selectableKeys (step e st))"
    using Cons.prems by (simp add: step_contained)
  then have "set (selectedKeys (run es (step e st))) \<subseteq> set (selectableKeys (run es (step e st)))"
    using Cons.IH Cons.prems(2) by simp
  then show ?case by (simp add: run_def)
qed

lemma renderDayGrid_nth:
  assumes "i < 42"
  shows "renderDayGrid st ! i = dayCell st (firstCellDate st) i"
  using assms by (simp add: renderDayGrid_def Let_def split: prod.splits)

text \<open>\<open>loadData\<close> reads nothing of the date-range settings and leaves them as they are.\<close>

lemma loadValue_dateRange:
  "loadValue (st\<lparr> dateRange := r \<rparr>) iv = (loadValue st iv)\<lparr> dateRange := r \<rparr>"
  by (simp add: loadValue_def Let_def split: option.splits)

lemma foldl_loadValue_dateRange:
  "foldl loadValue (st\<lparr> dateRange := r \<rparr>) ivs = (foldl loadValue st ivs)\<lparr> dateRange := r \<rparr>"
  by (induction ivs arbitrary: st) (simp_all add: loadValue_dateRange)

lemma loadData_dateRange:
  "loadData today dv (st\<lparr> dateRange := r \<rparr>) = (loadData today dv st)\<lparr> dateRange := r \<rparr>"
proof (cases "categories dv")
  case Nil
  then show ?thesis by (simp add: loadData_def Let_def)
next
  case (Cons cat cats)
  then show ?thesis
    by (cases st) (simp add: loadData_def Let_def foldl_loadValue_dateRange[symmetric])
qed

lemma getStartOfWeekOffset_dateRange:
  "getStartOfWeekOffset (st\<lparr> dateRange := r \<rparr>) d = getStartOfWeekOffset st d"
  by (simp add: getStartOfWeekOffset_def)

lemma firstCellDate_dateRange: "firstCellDate (st\<lparr> dateRange := r \<rparr>) = firstCellDate st"
  by (simp add: firstCellDate_def getStartOfWeekOffset_dateRange Let_def cong: num.case_cong)

lemma dayCell_dateRange: "dayCell (st\<lparr> dateRange := r \<rparr>) f i = dayCell st f i"
  by (simp add: dayCell_def Let_def cong: num.case_cong)

lemma renderDayGrid_dateRange: "renderDayGrid (st\<lparr> dateRange := r \<rparr>) = renderDayGrid st"
  by (simp add: renderDayGrid_def firstCellDate_dateRange dayCell_dateRange split: prod.splits)

subsection \<open>Facts about years and weeks\<close>

lemma YearFromDay_lower: "DayFromYear (YearFromDay d) \<le> d"
proof -
  define q where "q = (400 * d) div 146097"
  have q: "146097 * q \<le> 400 * d" unfolding q_def using div_bnds(1)[of 146097 "400 * d"] by simp
  have "DayFromYear (1970 + q - 1) \<le> d"
    using DayFromYear_upper[of "1970 + q - 1"] q by simp
  then show ?thesis
    unfolding YearFromDay_def q_def[symmetric] Let_def by simp
qed

lemma YearFromDay_upper: "d < DayFromYear (YearFromDay d + 1)"
proof -
  define q where "q = (400 * d) div 146097"
  have q: "400 * d < 146097 * q + 146097"
    unfolding q_def using div_bnds(2)[of 146097 "400 * d"] by simp
  have "d < DayFromYear (1970 + q + 1 + 1)"
    using DayFromYear_lower[of "1970 + q + 1 + 1"] q by simp
  then show ?thesis
    unfolding YearFromDay_def q_def[symmetric] Let_def by auto
qed

lemma DayFromYear_mono:
  assumes "y \<le> y'"
  shows "DayFromYear y \<le> DayFromYear y'"
proof (cases "y = y'")
  case True
  then show ?thesis by simp
next
  case False
  then have lt: "y < y'" using assms by simp
  define a b c where "a = (y - 1969) div 4" and "b = (y - 1901) div 100"
    and "c = (y - 1601) div 400"
  define a' b' c' where "a' = (y' - 1969) div 4" and "b' = (y' - 1901) div 100"
    and "c' = (y' - 1601) div 400"
  have a: "a \<le> a'" unfolding a_def a'_def using assms by (simp add: zdiv_mono1)
  have c: "c \<le> c'" unfolding c_def c'_def using assms by (simp add: zdiv_mono1)
  have b1: "100 * b' \<le> y' - 1901"
    unfolding b'_def using div_bnds(1)[of 100 "y' - 1901"] by simp
  have b2: "y - 1901 < 100 * b + 100"
    unfolding b_def using div_bnds(2)[of 100 "y - 1901"] by simp
  have "100 * b' - 100 * b \<le> 100 * y' - 100 * y" using b1 b2 lt by linarith
  then have "b' - b \<le> y' - y" by simp
  then have "365 * y + a - b + c \<le> 365 * y' + a' - b' + c'"
    using a c lt by linarith
  then have "365 * (y - 1970) + a - b + c \<le> 365 * (y' - 1970) + a' - b' + c'"
    by simp
  then show ?thesis
    unfolding DayFromYear_def a_def b_def c_def a'_def b'_def c'_def .
qed

lemma DaysInYear_le: "DayFromYear (y + 1) \<le> DayFromYear y + 367"
  unfolding DayFromYear_def
  using div_bnds[of 4 "y + 1 - 1969"] div_bnds[of 4 "y - 1969"]
        div_bnds[of 400 "y + 1 - 1601"] div_bnds[of 400 "y - 1601"]
        zdiv_mono1[of "y - 1901" "y + 1 - 1901" 100]
  by simp

lemma YearFromDay_ge_100:
  assumes "DayFromYear 100 \<le> d"
  shows "100 \<le> YearFromDay d"
proof (rule ccontr)
  assume "\<not> 100 \<le> YearFromDay d"
  then have "YearFromDay d + 1 \<le> 100" by simp
  then have "DayFromYear (YearFromDay d + 1) \<le> DayFromYear 100" by (rule DayFromYear_mono)
  then show False using YearFromDay_upper[of d] assms by simp
qed

lemma YearFromDay_negative:
  assumes "d < DayFromYear 0"
  shows "YearFromDay d < 0"
proof (rule ccontr)
  assume "\<not> YearFromDay d < 0"
  then have "0 \<le> YearFromDay d" by simp
  then have "DayFromYear 0 \<le> DayFromYear (YearFromDay d)" by (rule DayFromYear_mono)
  then show False using YearFromDay_lower[of d] assms by simp
qed

lemma DateUTC_plain:
  assumes "y < 0 \<or> 99 < y"
  shows "DateUTC y m d = TimeClip (MakeDay y m d * msPerDay)"
  using assms by (auto simp add: DateUTC_def Let_def)

lemma TimeClip_day:
  assumes "- 100000000 \<le> n" "n \<le> 100000000"
  shows "TimeClip (n * msPerDay) = Num (n * msPerDay)"
  using assms by (simp add: TimeClip_def maxTime_def msPerDay_def)

lemma atUTC_floor:
  assumes "YearFromTime t < 0 \<or> 99 < YearFromTime t"
    and "- 100000000 \<le> Day t" "Day t \<le> 100000000"
  shows "atUTC (Num t) = Num (Day t * msPerDay)"
  using assms by (simp add: DateUTC_plain MakeDay_roundtrip TimeClip_day)

lemma Day_of_day: "Day (n * msPerDay) = n"
  by (simp add: Day_def msPerDay_def)

lemma TimeWithinDay_of_day: "TimeWithinDay (n * msPerDay) = 0"
  by (simp add: TimeWithinDay_def msPerDay_def)

lemma MakeDay_shift: "MakeDay y m (d + x) = MakeDay y m d + x"
  by (simp add: MakeDay_def Let_def)

lemma setUTCDate_day:
  "setUTCDate (n * msPerDay) (DateFromTime (n * msPerDay) + x) = TimeClip ((n + x) * msPerDay)"
  by (simp add: setUTCDate_def MakeDay_shift MakeDay_roundtrip Day_of_day TimeWithinDay_of_day)

lemma div7: "0 \<le> r \<Longrightarrow> r < 7 \<Longrightarrow> (7 * m + r) div 7 = (m::int)"
  by simp

lemma mod7: "0 \<le> r \<Longrightarrow> r < 7 \<Longrightarrow> (7 * m + r) mod 7 = (r::int)"
  by simp

lemma split7: "\<exists>m r. (x::int) = 7 * m + r \<and> 0 \<le> r \<and> r < 7"
proof -
  have "x = 7 * (x div 7) + x mod 7" by simp
  moreover have "0 \<le> x mod 7" "x mod 7 < 7" by simp_all
  ultimately show ?thesis by blast
qed

lemma thursday_step_raw:
  "n + 4 - (if (n + 4) mod 7 = 0 then 7 else (n + 4) mod 7) = n - (n + 3) mod 7 + (3::int)"
proof -
  obtain m r where n: "n + 3 = 7 * m + r" and r: "0 \<le> r" "r < 7" using split7[of "n + 3"] by blast
  have r3: "(n + 3) mod 7 = r" unfolding n using r by (rule mod7)
  show ?thesis
  proof (cases "r = 6")
    case True
    then have e: "n + 4 = 7 * (m + 1) + 0" using n by simp
    have "(7 * (m + 1) + 0) mod 7 = (0::int)" by (intro mod7) simp_all
    then have "(n + 4) mod 7 = 0" unfolding e .
    then show ?thesis using r3 True by simp
  next
    case False
    have e: "n + 4 = 7 * m + (r + 1)" using n by simp
    have "(7 * m + (r + 1)) mod 7 = r + 1" using r False by (intro mod7) simp_all
    then have "(n + 4) mod 7 = r + 1" unfolding e .
    then show ?thesis using r3 r by simp
  qed
qed

lemma thursday_mod_raw: "(n - (n + 3) mod 7 + (3::int)) mod 7 = 0"
proof -
  obtain m r where n: "n + 3 = 7 * m + r" and r: "0 \<le> r" "r < 7" using split7[of "n + 3"] by blast
  have r3: "(n + 3) mod 7 = r" unfolding n using r by (rule mod7)
  have "n - r + 3 = 7 * m + 0" using n by simp
  then have "(n - r + 3) mod 7 = 0" using mod7[of 0 m] by simp
  then show ?thesis using r3 by simp
qed

lemma thursday_near_raw: "n - 3 \<le> n - (n + 3) mod 7 + (3::int) \<and> n - (n + 3) mod 7 + (3::int) \<le> n + 3"
proof -
  have "0 \<le> (n + 3) mod 7" "(n + 3) mod 7 < 7" by simp_all
  then show ?thesis by linarith
qed

lemma week_count:
  assumes "(th::int) mod 7 = 0"
  shows "- ((- (th - j + 1)) div 7) = (th - (j + (- j) mod 7)) div 7 + 1"
proof -
  obtain k where k: "th = 7 * k" using assms by (metis mod_eq_0_iff_dvd dvdE)
  obtain q a where j: "- j = 7 * q + a" and a: "0 \<le> a" "a < 7" using split7[of "- j"] by blast
  have am: "(- j) mod 7 = a" unfolding j using a by (rule mod7)
  have "- (th - j + 1) = 7 * (- k - q - 1) + (6 - a)" using k j by simp
  then have l: "(- (th - j + 1)) div 7 = - k - q - 1" using div7[of "6 - a" "- k - q - 1"] a by simp
  have "th - (j + a) = 7 * (k + q) + 0" using k j by simp
  then have r: "(th - (j + a)) div 7 = k + q" using div7[of 0 "k + q"] by simp
  show ?thesis using l r am by simp
qed

lemma thursday_step:
  "n + 4 - (if (n + 4) mod 7 = 0 then 7 else (n + 4) mod 7) = thursdayOfWeek n"
  unfolding thursdayOfWeek_def by (rule thursday_step_raw)

lemma thursdayOfWeek_mod: "thursdayOfWeek n mod 7 = 0"
  unfolding thursdayOfWeek_def by (rule thursday_mod_raw)

lemma thursdayOfWeek_near: "n - 3 \<le> thursdayOfWeek n \<and> thursdayOfWeek n \<le> n + 3"
  unfolding thursdayOfWeek_def by (rule thursday_near_raw)

text \<open>
  The two days that the ISO week number is defined by are what their names say:
  \<open>thursdayOfWeek n\<close> is a Thursday in the Monday-to-Sunday week of day \<open>n\<close>, and
  \<open>firstThursday y\<close> is the Thursday among the first seven days of year \<open>y\<close>.
\<close>

lemma thursdayOfWeek_is_thursday: "WeekDay (thursdayOfWeek n * msPerDay) = 4"
proof -
  obtain m where m: "thursdayOfWeek n = 7 * m"
    using thursdayOfWeek_mod[of n] by (metis mod_eq_0_iff_dvd dvdE)
  have "(7 * m + 4) mod 7 = (4::int)" by (intro mod7) simp_all
  then show ?thesis by (simp add: WeekDay_def Day_of_day m)
qed

lemma firstThursday_is_first:
  "DayFromYear y \<le> firstThursday y \<and> firstThursday y < DayFromYear y + 7
   \<and> WeekDay (firstThursday y * msPerDay) = 4"
proof -
  obtain q a where j: "- DayFromYear y = 7 * q + a" and a: "0 \<le> a" "a < 7"
    using split7[of "- DayFromYear y"] by blast
  have am: "(- DayFromYear y) mod 7 = a" unfolding j using a by (rule mod7)
  have f: "firstThursday y = DayFromYear y + a" by (simp add: firstThursday_def am)
  have "DayFromYear y + a + 4 = 7 * (- q) + 4" using j by simp
  moreover have "(7 * (- q) + 4) mod 7 = (4::int)" by (intro mod7) simp_all
  ultimately have "(DayFromYear y + a + 4) mod 7 = 4" by simp
  then show ?thesis using a by (simp add: f WeekDay_def Day_of_day)
qed

subsection \<open>Facts about the range walk\<close>

text \<open>
  From the year 100 on, \<open>atUTC\<close> of a UTC midnight is that midnight, the step of the walk
  is the next day, and the walk from day \<open>c\<close> to day \<open>b\<close> collects the selectable keys
  among the days \<open>c, \<dots>, b\<close>, in order.
\<close>

lemma atUTC_day:
  assumes "DayFromYear 100 \<le> c" "c \<le> 100000000"
  shows "atUTC (Num (c * msPerDay)) = Num (c * msPerDay)"
proof -
  have d100: "- 100000000 \<le> DayFromYear 100" by (simp add: DayFromYear_def)
  have y: "YearFromTime (c * msPerDay) < 0 \<or> 99 < YearFromTime (c * msPerDay)"
    using YearFromDay_ge_100[OF assms(1)] by (simp add: YearFromTime_def Day_of_day)
  have lo: "- 100000000 \<le> Day (c * msPerDay)" using assms(1) d100 by (simp add: Day_of_day)
  have hi: "Day (c * msPerDay) \<le> 100000000" using assms(2) by (simp add: Day_of_day)
  have "atUTC (Num (c * msPerDay)) = Num (Day (c * msPerDay) * msPerDay)"
    using y lo hi by (rule atUTC_floor)
  then show ?thesis unfolding Day_of_day .
qed

lemma nextDay_day:
  assumes "DayFromYear 100 \<le> c" "c < 100000000"
  shows "nextDay (Num (c * msPerDay)) = Num ((c + 1) * msPerDay)"
proof -
  have d100: "- 100000000 \<le> DayFromYear 100" by (simp add: DayFromYear_def)
  have "atUTC (Num (c * msPerDay)) = Num (c * msPerDay)" using assms by (intro atUTC_day) simp_all
  then have "nextDay (Num (c * msPerDay)) = TimeClip (c * msPerDay + msPerDay)" by (rule nextDay_eq)
  moreover have "c * msPerDay + msPerDay = (c + 1) * msPerDay" by (simp add: algebra_simps)
  ultimately show ?thesis using TimeClip_day[of "c + 1"] assms d100 by simp
qed

lemma newDate_day:
  assumes "- 100000000 \<le> c" "c \<le> 100000000"
  shows "newDate (Num (c * msPerDay)) = Num (c * msPerDay)"
  using assms by (simp add: TimeClip_day)

lemma rangeWalk_days:
  assumes "DayFromYear 100 \<le> c" "DayFromYear 100 \<le> b" "b < 100000000"
  shows "rangeWalk sel (Num (b * msPerDay)) (Num (c * msPerDay)) acc
         = acc @ filter (\<lambda>x. set_has x sel) (map (\<lambda>d. Num (d * msPerDay)) [c..b])"
  using assms(1)
proof (induction "nat (b + 1 - c)" arbitrary: c acc)
  case 0
  then have cb: "b < c" by simp
  have e: "atUTC (Num (b * msPerDay)) = Num (b * msPerDay)" using assms by (intro atUTC_day) simp_all
  show ?case
  proof (cases "c \<le> 100000000")
    case True
    then have "atUTC (Num (c * msPerDay)) = Num (c * msPerDay)" using "0.prems" by (intro atUTC_day) simp_all
    then show ?thesis using cb e by (subst rangeWalk.simps) (simp add: msPerDay_def del: atUTC.simps)
  next
    case False
    have "\<not> num_le (atUTC (Num (c * msPerDay))) (atUTC (Num (b * msPerDay)))"
    proof (cases "atUTC (Num (c * msPerDay))")
      case NaN
      then show ?thesis by simp
    next
      case (Num x)
      then have "Day (c * msPerDay) * msPerDay \<le> x" by (rule atUTC_ge)
      then have "c * msPerDay \<le> x" by (simp add: Day_of_day)
      then show ?thesis using Num e cb by (simp add: msPerDay_def del: atUTC.simps)
    qed
    then show ?thesis using cb by (subst rangeWalk.simps) (simp del: atUTC.simps)
  qed
next
  case (Suc n)
  then have cb: "c \<le> b" by simp
  have c: "atUTC (Num (c * msPerDay)) = Num (c * msPerDay)"
    using Suc.prems cb assms by (intro atUTC_day) simp_all
  have e: "atUTC (Num (b * msPerDay)) = Num (b * msPerDay)" using assms by (intro atUTC_day) simp_all
  have nx: "nextDay (Num (c * msPerDay)) = Num ((c + 1) * msPerDay)"
    using Suc.prems cb assms by (intro nextDay_day) simp_all
  have le: "num_le (atUTC (Num (c * msPerDay))) (atUTC (Num (b * msPerDay)))"
    unfolding c e using cb by (simp add: msPerDay_def)
  have n: "n = nat (b + 1 - (c + 1))" using Suc.hyps(2) by simp
  have d: "DayFromYear 100 \<le> c + 1" using Suc.prems by simp
  have upto: "[c..b] = c # [c + 1..b]" using cb by (simp add: upto_rec1)
  have "rangeWalk sel (Num (b * msPerDay)) (Num (c * msPerDay)) acc
        = rangeWalk sel (Num (b * msPerDay)) (Num ((c + 1) * msPerDay))
            (if set_has (Num (c * msPerDay)) sel then acc @ [Num (c * msPerDay)] else acc)"
    using le by (subst rangeWalk.simps) (simp add: c nx del: atUTC.simps nextDay.simps)
  also have "\<dots> = (if set_has (Num (c * msPerDay)) sel then acc @ [Num (c * msPerDay)] else acc)
                  @ filter (\<lambda>x. set_has x sel) (map (\<lambda>d. Num (d * msPerDay)) [c + 1..b])"
    using Suc.hyps(1)[OF n d] .
  finally show ?case unfolding upto by simp
qed

text \<open>
  With a filter target, a shift-click with range selection enabled and a last clicked key
  adds the selectable keys of the closed interval of days between the two keys to the
  selection, removes none, and makes the clicked key the last clicked one (keys from the
  year 100 on).
\<close>

lemma handleClickDate_range_with_target:
  assumes "filterTarget st = Some tg"
    and "rangeSelect (selectionSettings st)" and "shiftKey ev"
    and "lastClickedKey st = Some (Num (p * msPerDay))"
    and "DayFromYear 100 \<le> p" "p < 100000000"
    and "DayFromYear 100 \<le> k" "k < 100000000"
  shows "set (selectedKeys (handleClickDate (Num (k * msPerDay)) ev st))
           = set (selectedKeys st)
             \<union> {x \<in> set (selectableKeys st). \<exists>d. min p k \<le> d \<and> d \<le> max p k \<and> x = Num (d * msPerDay)}
         \<and> lastClickedKey (handleClickDate (Num (k * msPerDay)) ev st) = Some (Num (k * msPerDay))"
proof -
  have d100: "- 100000000 \<le> DayFromYear 100" by (simp add: DayFromYear_def)
  let ?a = "min p k" and ?b = "max p k"
  have lt: "num_lt (Num (k * msPerDay)) (Num (p * msPerDay)) = (k < p)" by (simp add: msPerDay_def)
  have s: "(if num_lt (Num (k * msPerDay)) (Num (p * msPerDay))
            then Num (k * msPerDay) else Num (p * msPerDay)) = Num (?a * msPerDay)"
    unfolding lt by (simp add: min_def)
  have e: "(if num_lt (Num (k * msPerDay)) (Num (p * msPerDay))
            then Num (p * msPerDay) else Num (k * msPerDay)) = Num (?b * msPerDay)"
    unfolding lt by (simp add: max_def)
  have na: "newDate (Num (?a * msPerDay)) = Num (?a * msPerDay)"
    using assms(5-8) d100 by (intro newDate_day) simp_all
  have nb: "newDate (Num (?b * msPerDay)) = Num (?b * msPerDay)"
    using assms(5-8) d100 by (intro newDate_day) simp_all
  have w: "rangeWalk (selectableKeys st) (Num (?b * msPerDay)) (Num (?a * msPerDay)) []
           = filter (\<lambda>x. set_has x (selectableKeys st)) (map (\<lambda>d. Num (d * msPerDay)) [?a..?b])"
    using rangeWalk_days[of ?a ?b "selectableKeys st" "[]"] assms(5-8) by simp
  have ra: "(if rangeSelect (selectionSettings st) \<and> shiftKey ev
             then lastClickedKey st else None) = Some (Num (p * msPerDay))"
    using assms(2-4) by simp
  have h: "handleClickDate (Num (k * msPerDay)) ev st
           = (applyFilterForKeys
                (filter (\<lambda>x. set_has x (selectableKeys st)) (map (\<lambda>d. Num (d * msPerDay)) [?a..?b]))
                True st)\<lparr> lastClickedKey := Some (Num (k * msPerDay)) \<rparr>"
    unfolding handleClickDate_def Let_def ra option.case s e na nb w by (rule refl)
  show ?thesis
    unfolding h using assms(1)
    by (auto simp add: applyFilterForKeys_def Let_def set_foldl_set_add set_has_def)
qed

subsection \<open>Facts about clicks and the filter target\<close>

text \<open>
  A query name without a dot gives no filter target; without a target no request reaches
  the host; and a click that does not take the range branch updates the selection and the
  last clicked key in the same way with and without a target.
\<close>

lemma lastIndexOf_absent: "c \<notin> set s \<Longrightarrow> lastIndexOf c s = - 1"
  by (induction s) (auto simp add: Let_def)

lemma no_dot_no_target:
  assumes "CHR ''.'' \<notin> set q"
  shows "deriveFilterTarget (Some q) = None"
  using assms by (simp add: deriveFilterTarget_def lastIndexOf_absent)

lemma no_target_no_request:
  assumes "filterTarget st = None"
  shows "hostCalls (handleClickDate key ev st) = hostCalls st
         \<and> hostCalls (clearSelection st) = hostCalls st"
  using assms
  by (simp add: handleClickDate_def clearSelection_def applyFilterForKeys_def Let_def
           split: option.splits)

lemma foldl_set_add_self:
  "set ks \<subseteq> set s \<Longrightarrow> foldl (\<lambda>s k. set_add k s) s ks = s"
  by (induction ks arbitrary: s) (simp_all add: set_add_def)

lemma applyFilterForKeys_own:
  "selectedKeys (applyFilterForKeys (selectedKeys s) True s) = selectedKeys s"
  by (cases "filterTarget s") (simp_all add: applyFilterForKeys_def Let_def foldl_set_add_self)

lemma applyFilterForKeys_single:
  "selectedKeys (applyFilterForKeys [key] False (s\<lparr> selectedKeys := [key] \<rparr>)) = [key]"
  by (cases "filterTarget s") (simp_all add: applyFilterForKeys_def Let_def set_add_def)

lemma handleClickDate_no_range:
  assumes "(if rangeSelect (selectionSettings st) \<and> shiftKey ev
            then lastClickedKey st else None) = None"
  shows "selectedKeys (handleClickDate key ev st)
           = (if multiSelect (selectionSettings st) \<and> (ctrlKey ev \<or> metaKey ev)
              then (if set_has key (selectedKeys st)
                    then set_delete key (selectedKeys st)
                    else set_add key (selectedKeys st))
              else [key])
         \<and> lastClickedKey (handleClickDate key ev st) = Some key"
proof (cases "multiSelect (selectionSettings st) \<and> (ctrlKey ev \<or> metaKey ev)")
  case True
  let ?t = "if set_has key (selectedKeys st)
            then set_delete key (selectedKeys st) else set_add key (selectedKeys st)"
  have h: "handleClickDate key ev st
        = (applyFilterForKeys (selectedKeys (st\<lparr> selectedKeys := ?t \<rparr>)) True
             (st\<lparr> selectedKeys := ?t \<rparr>))\<lparr> lastClickedKey := Some key \<rparr>"
    unfolding handleClickDate_def Let_def assms option.case if_P[OF True] by (rule refl)
  show ?thesis
    unfolding if_P[OF True] h
    using applyFilterForKeys_own[of "st\<lparr> selectedKeys := ?t \<rparr>"] by simp
next
  case False
  have h: "handleClickDate key ev st
        = (applyFilterForKeys [key] False (st\<lparr> selectedKeys := [key] \<rparr>))
            \<lparr> lastClickedKey := Some key \<rparr>"
    unfolding handleClickDate_def Let_def assms option.case if_not_P[OF False] by (rule refl)
  show ?thesis
    unfolding if_not_P[OF False] h
    using applyFilterForKeys_single[of key st] by simp
qed

lemma click_without_range_ignores_target:
  assumes "\<not> (rangeSelect (selectionSettings st) \<and> shiftKey ev \<and> lastClickedKey st \<noteq> None)"
  shows "selectedKeys (handleClickDate key ev (st\<lparr> filterTarget := None \<rparr>))
           = selectedKeys (handleClickDate key ev st)
         \<and> lastClickedKey (handleClickDate key ev (st\<lparr> filterTarget := None \<rparr>))
           = lastClickedKey (handleClickDate key ev st)"
proof -
  have r: "(if rangeSelect (selectionSettings st) \<and> shiftKey ev
            then lastClickedKey st else None) = None"
    using assms by auto
  then have r': "(if rangeSelect (selectionSettings (st\<lparr> filterTarget := None \<rparr>)) \<and> shiftKey ev
            then lastClickedKey (st\<lparr> filterTarget := None \<rparr>) else None) = None"
    by (auto split: if_splits)
  show ?thesis
    unfolding handleClickDate_no_range[OF r, of key, THEN conjunct1]
      handleClickDate_no_range[OF r, of key, THEN conjunct2]
      handleClickDate_no_range[OF r', of key, THEN conjunct1]
      handleClickDate_no_range[OF r', of key, THEN conjunct2]
    by (simp cong: if_cong)
qed

subsection \<open>Facts about parseISODate\<close>

text \<open>
  \<open>Date.UTC\<close> is a number for every year of four digits and month and day of two digits,
  so \<open>parseISODate\<close> accepts every string that matches the regular expression: its
  test for an invalid date never succeeds.
\<close>

lemma parseInt_bounds:
  assumes "list_all isDigit s" "0 \<le> a"
  shows "0 \<le> foldl (\<lambda>a c. 10 * a + (int (of_char c) - 48)) a s
         \<and> foldl (\<lambda>a c. 10 * a + (int (of_char c) - 48)) a s < (a + 1) * 10 ^ length s"
  using assms
proof (induction s arbitrary: a)
  case Nil
  then show ?case by simp
next
  case (Cons c cs)
  define d where "d = int (of_char c) - 48"
  define F where "F = foldl (\<lambda>a c. 10 * a + (int (of_char c) - 48)) (10 * a + d) cs"
  define P where "P = (10::int) ^ length cs"
  have d: "0 \<le> d" "d \<le> 9" using Cons.prems(1) by (simp_all add: isDigit_def d_def)
  have a': "0 \<le> 10 * a + d" using d Cons.prems(2) by simp
  have ih: "0 \<le> F" "F < (10 * a + d + 1) * P"
    using Cons.IH[OF _ a'] Cons.prems(1) unfolding F_def P_def by simp_all
  have "0 \<le> P" unfolding P_def by simp
  then have "(10 * a + d + 1) * P \<le> (10 * (a + 1)) * P"
    using d by (intro mult_right_mono) simp_all
  then have "F < (10 * (a + 1)) * P" using ih(2) by linarith
  moreover have "(10 * (a + 1)) * P = (a + 1) * 10 ^ length (c # cs)"
    unfolding P_def by (simp add: algebra_simps)
  ultimately have "F < (a + 1) * 10 ^ length (c # cs)" by simp
  then show ?case using ih(1) unfolding F_def d_def by simp
qed

lemma parseInt_digits:
  assumes "list_all isDigit s"
  shows "0 \<le> parseInt s \<and> parseInt s < 10 ^ length s"
  using parseInt_bounds[OF assms, of 0] by (simp add: parseInt_def)

lemma monthStart_bounds: "0 \<le> monthStart m b \<and> monthStart m b \<le> 335"
  by (simp add: monthStart_def Let_def)

lemma DateUTC_of_digits:
  assumes "0 \<le> y" "y < 10000" "0 \<le> m" "m < 100" "0 \<le> d" "d < 100"
  shows "DateUTC y (m - 1) d \<noteq> NaN"
proof -
  define yr where "yr = (if 0 \<le> y then (if y \<le> 99 then 1900 + y else y) else y)"
  define ym where "ym = yr + (m - 1) div 12"
  have yr: "100 \<le> yr" "yr < 10000" using assms(1,2) unfolding yr_def by auto
  have "- 1 \<le> (m - 1) div 12" "(m - 1) div 12 \<le> 8" using assms(3,4) by linarith+
  then have ym: "99 \<le> ym" "ym \<le> 10007" using yr unfolding ym_def by simp_all
  have lo: "- 683836 \<le> DayFromYear ym"
    using DayFromYear_mono[OF ym(1)] by (simp add: DayFromYear_def)
  have hi: "DayFromYear ym \<le> 2935474"
    using DayFromYear_mono[OF ym(2)] by (simp add: DayFromYear_def)
  have md: "MakeDay yr (m - 1) d
            = DayFromYear ym + monthStart ((m - 1) mod 12) (InLeapYear ym) + d - 1"
    by (simp add: MakeDay_def Let_def ym_def)
  have "- 100000000 \<le> MakeDay yr (m - 1) d" "MakeDay yr (m - 1) d \<le> 100000000"
    unfolding md
    using lo hi monthStart_bounds[of "(m - 1) mod 12" "InLeapYear ym"] assms(5,6) by simp_all
  then have "TimeClip (MakeDay yr (m - 1) d * msPerDay) = Num (MakeDay yr (m - 1) d * msPerDay)"
    by (rule TimeClip_day)
  then show ?thesis unfolding DateUTC_def Let_def yr_def[symmetric] by simp
qed

lemma parseISODate_accepts_every_match:
  assumes "matchISO s = Some (y, m, d)"
  shows "parseISODate (Some s) \<noteq> None"
proof -
  have shape: "length y = 4" "list_all isDigit y" "length m = 2" "list_all isDigit m"
    "length d = 2" "list_all isDigit d"
    using assms by (auto simp add: matchISO_def Let_def split: if_splits)
  have ne: "s \<noteq> []" using assms by (auto simp add: matchISO_def Let_def split: if_splits)
  have "DateUTC (parseInt y) (parseInt m - 1) (parseInt d) \<noteq> NaN"
    using parseInt_digits[OF shape(2)] parseInt_digits[OF shape(4)] parseInt_digits[OF shape(6)]
      shape(1,3,5)
    by (intro DateUTC_of_digits) simp_all
  then show ?thesis
    using assms ne by (simp add: parseISODate_def split: num.splits)
qed

subsection \<open>Filter requests\<close>

text \<open>
  C1, as stated, fails: a plain click (the single-replace branch, which calls
  \<open>applyFilterForKeys\<close> with \<open>additive = false\<close>) on 1 March 2024, in a visual
  loaded with three dates under the query name "Dates.Date", makes one call on the host,
  and its action is \<open>merge\<close>.
\<close>

theorem single_click_requests_merge:
  "selectionView (run
     [Update (2024, 2) (isoData (Some ''Dates.Date'') [''2024-03-01'', ''2024-03-05'', ''2024-03-08'']),
      ClickCell 4 plainClick] (initial (2024, 2)))
   = ([march2024 1], Some (march2024 1), [march2024 1, march2024 5, march2024 8],
      Some \<lparr> table = ''Dates'', column = ''Date'' \<rparr>, [merge])"
  by code_simp

text \<open>
  C1, amended. With a filter target, every call of \<open>applyFilterForKeys\<close> makes exactly
  one request, an "In" filter on the target whose values are the dates of the whole
  resulting selection, and the action is \<open>merge\<close> whether \<open>additive\<close> holds or not.
  \<open>additive\<close> decides the selection only: the given keys alone when it is false, the
  prior selection joined with the given keys when it is true.
\<close>

theorem applyFilterForKeys_merges:
  assumes "filterTarget st = Some tg"
  shows "hostCalls (applyFilterForKeys keys additive st) =
           hostCalls st @
             [\<lparr> jsonFilter = Some
                   \<lparr> schema = ''http://powerbi.com/product/schema#basic'',
                     target = tg, operator = ''In'',
                     filterValues = map newDate (selectedKeys (applyFilterForKeys keys additive st)) \<rparr>,
                 objectName = ''general'', propertyName = ''filter'', action = merge \<rparr>]
         \<and> set (selectedKeys (applyFilterForKeys keys additive st)) =
             (if additive then set (selectedKeys st) \<union> set keys else set keys)"
  using assms by (simp add: applyFilterForKeys_def Let_def set_foldl_set_add)

text \<open>The amended C1 at a state with 1 March selected, replacing the selection by 5 March.\<close>

theorem applyFilterForKeys_merges_witness:
  "filterTarget ((initial (2024, 2))\<lparr> selectedKeys := [march2024 1],
       filterTarget := Some \<lparr> table = ''Dates'', column = ''Date'' \<rparr> \<rparr>)
     = Some \<lparr> table = ''Dates'', column = ''Date'' \<rparr>
   \<and> map action (hostCalls (applyFilterForKeys [march2024 5] False
       ((initial (2024, 2))\<lparr> selectedKeys := [march2024 1],
          filterTarget := Some \<lparr> table = ''Dates'', column = ''Date'' \<rparr> \<rparr>))) = [merge]
   \<and> set (selectedKeys (applyFilterForKeys [march2024 5] False
       ((initial (2024, 2))\<lparr> selectedKeys := [march2024 1],
          filterTarget := Some \<lparr> table = ''Dates'', column = ''Date'' \<rparr> \<rparr>))) = {march2024 5}"
proof -
  have a: "filterTarget ((initial (2024, 2))\<lparr> selectedKeys := [march2024 1],
       filterTarget := Some \<lparr> table = ''Dates'', column = ''Date'' \<rparr> \<rparr>)
     = Some \<lparr> table = ''Dates'', column = ''Date'' \<rparr>"
    by simp
  show ?thesis
    using a applyFilterForKeys_merges[OF a, of "[march2024 5]" False]
    by (simp add: initial_def)
qed

subsection \<open>Containment of the selection\<close>

text \<open>
  C2, as stated, fails: after a click on 1 March 2024, an update whose data holds 5 March
  only leaves 1 March selected, and it is no longer selectable.
\<close>

theorem stale_selection_after_update:
  "selectionView (run
     [Update (2024, 2) (isoData (Some ''Dates.Date'') [''2024-03-01'']),
      ClickCell 4 plainClick,
      Update (2024, 2) (isoData (Some ''Dates.Date'') [''2024-03-05''])] (initial (2024, 2)))
   = ([march2024 1], Some (march2024 1), [march2024 5],
      Some \<lparr> table = ''Dates'', column = ''Date'' \<rparr>, [merge])
   \<and> \<not> set (selectedKeys (run
     [Update (2024, 2) (isoData (Some ''Dates.Date'') [''2024-03-01'']),
      ClickCell 4 plainClick,
      Update (2024, 2) (isoData (Some ''Dates.Date'') [''2024-03-05''])] (initial (2024, 2))))
     \<subseteq> set (selectableKeys (run
     [Update (2024, 2) (isoData (Some ''Dates.Date'') [''2024-03-01'']),
      ClickCell 4 plainClick,
      Update (2024, 2) (isoData (Some ''Dates.Date'') [''2024-03-05''])] (initial (2024, 2))))"
  by code_simp

text \<open>
  C2, amended. In every state reached from the constructor's state by clicks on cells of
  the day grid (with any modifier keys), clearing, navigation, and data updates that each
  keep every selected key among the new selectable keys, \<open>selectedKeys\<close> is a subset of
  \<open>selectableKeys\<close>.
\<close>

theorem selection_contained:
  assumes "admissible evs (initial today)"
  shows "set (selectedKeys (run evs (initial today)))
           \<subseteq> set (selectableKeys (run evs (initial today)))"
  using assms by (intro run_contained) (simp_all add: initial_def)

text \<open>
  The amended C2 on a sequence with a click, a range click and a second update that keeps
  the selected dates.
\<close>

theorem selection_contained_witness:
  "admissible
     [Update (2024, 2) (isoData (Some ''Dates.Date'') [''2024-03-01'', ''2024-03-05'']),
      ClickCell 4 plainClick, ClickCell 8 shiftClick,
      Update (2024, 2) (isoData (Some ''Dates.Date'') [''2024-03-01'', ''2024-03-05'', ''2024-03-08''])]
     (initial (2024, 2))
   \<and> set (selectedKeys (run
     [Update (2024, 2) (isoData (Some ''Dates.Date'') [''2024-03-01'', ''2024-03-05'']),
      ClickCell 4 plainClick, ClickCell 8 shiftClick,
      Update (2024, 2) (isoData (Some ''Dates.Date'') [''2024-03-01'', ''2024-03-05'', ''2024-03-08''])]
     (initial (2024, 2))))
     \<subseteq> set (selectableKeys (run
     [Update (2024, 2) (isoData (Some ''Dates.Date'') [''2024-03-01'', ''2024-03-05'']),
      ClickCell 4 plainClick, ClickCell 8 shiftClick,
      Update (2024, 2) (isoData (Some ''Dates.Date'') [''2024-03-01'', ''2024-03-05'', ''2024-03-08''])]
     (initial (2024, 2))))"
proof -
  have a: "admissible
     [Update (2024, 2) (isoData (Some ''Dates.Date'') [''2024-03-01'', ''2024-03-05'']),
      ClickCell 4 plainClick, ClickCell 8 shiftClick,
      Update (2024, 2) (isoData (Some ''Dates.Date'') [''2024-03-01'', ''2024-03-05'', ''2024-03-08''])]
     (initial (2024, 2))"
    by code_simp
  show ?thesis using a selection_contained[OF a] by simp
qed

subsection \<open>Data updates and the selection\<close>

text \<open>
  C3, as stated, fails: with 3, 4 and 5 March 2024 selected (a click on the 3rd, a
  shift-click on the 5th), an update whose data holds the 3rd and the 5th only leaves all
  three selected, and the host has received the two requests of the clicks and no other.
\<close>

theorem update_leaves_stale_keys:
  "selectionView (run
     [Update (2024, 2) (isoData (Some ''Dates.Date'') [''2024-03-03'', ''2024-03-04'', ''2024-03-05'']),
      ClickCell 6 plainClick, ClickCell 8 shiftClick,
      Update (2024, 2) (isoData (Some ''Dates.Date'') [''2024-03-03'', ''2024-03-05''])]
     (initial (2024, 2)))
   = ([march2024 3, march2024 4, march2024 5], Some (march2024 5), [march2024 3, march2024 5],
      Some \<lparr> table = ''Dates'', column = ''Date'' \<rparr>, [merge, merge])"
  by code_simp

text \<open>
  C3, amended. A data update rebuilds the availability index and leaves the selection as
  it was: \<open>selectedKeys\<close> and \<open>lastClickedKey\<close> are unchanged, keys that are no longer
  available stay selected, and no request is made on the host.
\<close>

theorem update_keeps_selection:
  "selectedKeys (update today dv st) = selectedKeys st
   \<and> lastClickedKey (update today dv st) = lastClickedKey st
   \<and> hostCalls (update today dv st) = hostCalls st"
  by (simp add: update_def loadData_keeps readSettings_keeps)

subsection \<open>Clicks on dates that are not available\<close>

text \<open>
  C4, as stated, fails: \<open>handleClickDate\<close> has no check of its own. Called on 2 March
  2024 with no modifier, in a visual whose only available date is 1 March, it selects
  2 March, makes it the last clicked key and sends a filter request.
\<close>

theorem handleClickDate_accepts_unavailable:
  "selectionView (handleClickDate (march2024 2) plainClick
     (run [Update (2024, 2) (isoData (Some ''Dates.Date'') [''2024-03-01''])] (initial (2024, 2))))
   = ([march2024 2], Some (march2024 2), [march2024 1],
      Some \<lparr> table = ''Dates'', column = ''Date'' \<rparr>, [merge])"
  by code_simp

text \<open>
  C4, amended. The rejection is done where the grid is rendered: a cell whose key is not
  in the availability index gets no click or key handler, so for every such cell and every
  combination of modifier keys a click on it changes nothing (selection, last clicked key
  and requests made are as before).
\<close>

theorem clickCell_unavailable_noop:
  assumes "i < 42"
    and "\<not> set_has (cellKey (renderDayGrid st ! i)) (selectableKeys st)"
  shows "clickCell i ev st = st"
  using assms by (simp add: clickCell_def Let_def renderDayGrid_clickable)

text \<open>The amended C4 at cell 5 (2 March 2024) of a visual whose only date is 1 March.\<close>

theorem clickCell_unavailable_noop_witness:
  "(5::nat) < 42
   \<and> \<not> set_has
         (cellKey (renderDayGrid
            (update (2024, 2) (isoData (Some ''Dates.Date'') [''2024-03-01'']) (initial (2024, 2)))
            ! 5))
         (selectableKeys
            (update (2024, 2) (isoData (Some ''Dates.Date'') [''2024-03-01'']) (initial (2024, 2))))
   \<and> clickCell 5 shiftClick
         (update (2024, 2) (isoData (Some ''Dates.Date'') [''2024-03-01'']) (initial (2024, 2)))
       = update (2024, 2) (isoData (Some ''Dates.Date'') [''2024-03-01'']) (initial (2024, 2))"
proof -
  have b: "(5::nat) < 42" by simp
  have a: "\<not> set_has
         (cellKey (renderDayGrid
            (update (2024, 2) (isoData (Some ''Dates.Date'') [''2024-03-01'']) (initial (2024, 2)))
            ! 5))
         (selectableKeys
            (update (2024, 2) (isoData (Some ''Dates.Date'') [''2024-03-01'']) (initial (2024, 2))))"
    unfolding renderDayGrid_nth[OF b] by code_simp
  show ?thesis using a b clickCell_unavailable_noop[OF b a] by simp
qed

subsection \<open>Selection without a filter target\<close>

text \<open>
  C5: the code departs from the claim. The query name "Date" has no dot, so the filter
  target is none and no request is made. A click on 1 March 2024 followed by a shift-click
  on 8 March then leaves the selection at 1 March alone, although \<open>lastClickedKey\<close>
  moves to 8 March; the same events under the query name "Dates.Date" select 1, 5 and 8
  March.
\<close>

theorem range_click_without_target:
  "selectionView (run
     [Update (2024, 2) (isoData (Some ''Date'') [''2024-03-01'', ''2024-03-05'', ''2024-03-08'']),
      ClickCell 4 plainClick, ClickCell 11 shiftClick] (initial (2024, 2)))
   = ([march2024 1], Some (march2024 8), [march2024 1, march2024 5, march2024 8], None, [])
   \<and> selectionView (run
     [Update (2024, 2) (isoData (Some ''Dates.Date'') [''2024-03-01'', ''2024-03-05'', ''2024-03-08'']),
      ClickCell 4 plainClick, ClickCell 11 shiftClick] (initial (2024, 2)))
   = ([march2024 1, march2024 5, march2024 8], Some (march2024 8),
      [march2024 1, march2024 5, march2024 8],
      Some \<lparr> table = ''Dates'', column = ''Date'' \<rparr>, [merge, merge])"
  by code_simp

subsection \<open>Range selection\<close>

text \<open>
  C6: the code departs from the claim. With 1, 2 and 3 March 2024 available, no filter
  target, 1 March selected and last clicked, a shift-click on 3 March (range selection
  enabled) adds none of the three days of the interval: the selection stays at 1 March.
\<close>

theorem range_click_adds_nothing_without_target:
  "selectionView (run
     [Update (2024, 2) (isoData (Some ''Date'') [''2024-03-01'', ''2024-03-02'', ''2024-03-03''])]
     (initial (2024, 2)))
   = ([], None, [march2024 1, march2024 2, march2024 3], None, [])
   \<and> selectionView (handleClickDate (march2024 3) shiftClick
       (handleClickDate (march2024 1) plainClick (run
         [Update (2024, 2) (isoData (Some ''Date'') [''2024-03-01'', ''2024-03-02'', ''2024-03-03''])]
         (initial (2024, 2)))))
   = ([march2024 1], Some (march2024 3), [march2024 1, march2024 2, march2024 3], None, [])"
  by code_simp

subsection \<open>Parsing of ISO dates\<close>

text \<open>
  C7: the code departs from the claim. \<open>parseISODate\<close> accepts "2023-02-30", which names
  no calendar date, and returns the rolled-over date 2 March 2023.
\<close>

theorem parseISODate_rolls_over:
  "parseISODate (Some ''2023-02-30'') = Some (Num 1677715200000)
   \<and> (YearFromTime 1677715200000, MonthFromTime 1677715200000, DateFromTime 1677715200000)
       = (2023, 2, 2)"
  by code_simp

subsection \<open>Clearing the selection\<close>

text \<open>
  C8. In every state, \<open>clearSelection\<close> empties \<open>selectedKeys\<close> and resets
  \<open>lastClickedKey\<close> to none. When a filter target exists it makes exactly one call on the
  host, with action \<open>remove\<close> and no filter object (so never an "In" filter with an empty
  list of values); without a target it makes no call.
\<close>

theorem clearSelection_requests_removal:
  "selectedKeys (clearSelection st) = []
   \<and> lastClickedKey (clearSelection st) = None
   \<and> hostCalls (clearSelection st) =
       hostCalls st @
         (if filterTarget st = None then []
          else [\<lparr> jsonFilter = None, objectName = ''general'',
                  propertyName = ''filter'', action = remove \<rparr>])"
  by (cases "filterTarget st") (simp_all add: clearSelection_def)

subsection \<open>ISO week numbers\<close>

text \<open>
  For every date whose week lies wholly before the year 0 or wholly after the year 99,
  inside the range of \<open>Date\<close> (from day -99999600 to day 99999997), \<open>getISOWeek\<close>
  returns the ISO 8601 week number.
\<close>

lemma getISOWeek_iso8601:
  assumes "(- 99999600 \<le> Day t \<and> Day t + 3 < DayFromYear 0)
           \<or> (DayFromYear 100 + 3 \<le> Day t \<and> Day t \<le> 99999997)"
  shows "getISOWeek (Num t) = Num (iso8601_week (Day t))"
proof -
  define n where "n = Day t"
  define th where "th = thursdayOfWeek n"
  define Y where "Y = YearFromDay th"
  have near: "n - 3 \<le> th" "th \<le> n + 3" unfolding th_def using thursdayOfWeek_near[of n] by simp_all
  have d100: "- 100000000 + 367 \<le> DayFromYear 100" by (simp add: DayFromYear_def)
  have d0: "DayFromYear 0 \<le> 100000000" by (simp add: DayFromYear_def)
  have range_n: "- 100000000 \<le> n" "n \<le> 100000000" using assms d100 d0 unfolding n_def by auto
  have range_th: "- 100000000 \<le> th" "th \<le> 100000000" using assms near d100 d0 unfolding n_def by auto
  have year_n: "YearFromTime t < 0 \<or> 99 < YearFromTime t"
    using assms YearFromDay_negative[of n] YearFromDay_ge_100[of n]
    unfolding YearFromTime_def n_def by auto
  have year_th: "Y < 0 \<or> 99 < Y"
    using assms near YearFromDay_negative[of th] YearFromDay_ge_100[of th]
    unfolding Y_def n_def by auto
  have jan1: "DayFromYear Y \<le> th" "th < DayFromYear Y + 367"
    using YearFromDay_lower[of th] YearFromDay_upper[of th] DaysInYear_le[of Y]
    unfolding Y_def by simp_all
  have "- 100000000 \<le> DayFromYear Y"
    using assms
  proof
    assume "- 99999600 \<le> Day t \<and> Day t + 3 < DayFromYear 0"
    then show ?thesis using jan1 near unfolding n_def by simp
  next
    assume "DayFromYear 100 + 3 \<le> Day t \<and> Day t \<le> 99999997"
    then have "100 \<le> Y" using near YearFromDay_ge_100[of th] unfolding Y_def n_def by simp
    then show ?thesis using DayFromYear_mono[of 100 Y] d100 by simp
  qed
  then have range_j: "- 100000000 \<le> DayFromYear Y" "DayFromYear Y \<le> 100000000"
    using jan1 range_th by simp_all
  have t0: "atUTC (Num t) = Num (n * msPerDay)"
    unfolding n_def using year_n range_n[unfolded n_def] by (rule atUTC_floor)
  have wd: "WeekDay (n * msPerDay) = (n + 4) mod 7" by (simp add: WeekDay_def Day_of_day)
  define delta where "delta = 4 - (if (n + 4) mod 7 = 0 then 7 else (n + 4) mod 7)"
  have delta: "n + delta = th" using thursday_step[of n] unfolding th_def delta_def by simp
  have "setUTCDate (n * msPerDay) (DateFromTime (n * msPerDay) + delta) = TimeClip (th * msPerDay)"
    using setUTCDate_day[of n delta] unfolding delta .
  then have s1: "setUTCDate (n * msPerDay) (DateFromTime (n * msPerDay) + delta) = Num (th * msPerDay)"
    using TimeClip_day[OF range_th] by simp
  have e: "DateFromTime (n * msPerDay) + 4 - (if (n + 4) mod 7 = 0 then 7 else (n + 4) mod 7)
           = DateFromTime (n * msPerDay) + delta"
    unfolding delta_def by (simp split del: if_split)
  have t1: "setUTCDate (n * msPerDay)
              (DateFromTime (n * msPerDay) + 4 - (if (n + 4) mod 7 = 0 then 7 else (n + 4) mod 7))
            = Num (th * msPerDay)"
    unfolding e by (rule s1)
  have yt: "YearFromTime (th * msPerDay) = Y" by (simp add: YearFromTime_def Day_of_day Y_def)
  have ys: "DateUTC Y 0 1 = Num (DayFromYear Y * msPerDay)"
    using DateUTC_plain[OF year_th, of 0 1] TimeClip_day[OF range_j]
    by (simp add: MakeDay_def monthStart_def)
  have dd: "(th * msPerDay - DayFromYear Y * msPerDay) div msPerDay + 1 = th - DayFromYear Y + 1"
  proof -
    have "th * msPerDay - DayFromYear Y * msPerDay = (th - DayFromYear Y) * msPerDay"
      by (simp add: algebra_simps)
    then show ?thesis by (simp add: msPerDay_def)
  qed
  have "getISOWeek (Num t) = Num (- ((- (th - DayFromYear Y + 1)) div 7))"
    unfolding getISOWeek_def t0 num.case Let_def wd t1 yt ys dd by (rule refl)
  also have "- ((- (th - DayFromYear Y + 1)) div 7)
             = (th - (DayFromYear Y + (- DayFromYear Y) mod 7)) div 7 + 1"
    using thursdayOfWeek_mod[of n] unfolding th_def[symmetric] by (rule week_count)
  finally show ?thesis
    by (simp add: iso8601_week_def firstThursday_def Let_def th_def Y_def n_def)
qed

text \<open>1 January 2023, a Sunday, is in week 52.\<close>

lemma getISOWeek_2023: "getISOWeek (Num 1672531200000) = Num 52"
  by code_simp

text \<open>
  C9: the code departs from the claim where a week touches the years 0 to 99, which
  \<open>Date.UTC\<close> reads as 1900 to 1999. 1 January of the year 100 is a Friday in week 53 of
  the year 99, and \<open>getISOWeek\<close> returns -99085. 2 January of the year 0 is a Sunday in
  week 52 of the year before, and \<open>getISOWeek\<close> returns 1; the day grid of December of
  the year -1, with weeks starting on Sunday and week numbers shown, passes that date to
  \<open>getISOWeek\<close> for its last row (cell 35).
\<close>

theorem getISOWeek_years_0_to_99:
  "getISOWeek (Num (- 59011459200000)) = Num (- 99085)
   \<and> (YearFromTime (- 59011459200000), MonthFromTime (- 59011459200000),
       DateFromTime (- 59011459200000), WeekDay (- 59011459200000)) = (100, 0, 1, 5)
   \<and> iso8601_week (Day (- 59011459200000)) = 53
   \<and> getISOWeek (Num (- 62167132800000)) = Num 1
   \<and> (YearFromTime (- 62167132800000), MonthFromTime (- 62167132800000),
       DateFromTime (- 62167132800000), WeekDay (- 62167132800000)) = (0, 0, 2, 0)
   \<and> iso8601_week (Day (- 62167132800000)) = 52
   \<and> weekNum (dayCell
         (run [Update (2024, 2) \<lparr> objects = weekObjects, categories = [] \<rparr>,
               Navigate day (- 1) 11] (initial (2024, 2)))
         (Num (- 62170156800000)) 35) = Some (Num 1)
   \<and> firstCellDate
         (run [Update (2024, 2) \<lparr> objects = weekObjects, categories = [] \<rparr>,
               Navigate day (- 1) 11] (initial (2024, 2)))
       = Num (- 62170156800000)"
  by code_simp

subsection \<open>The date range settings\<close>

text \<open>
  C10. For two configurations that differ in the date range settings only
  (\<open>respectDataRange\<close>, \<open>minDate\<close>, \<open>maxDate\<close>), loading the same data gives the same
  selectable keys and the same day grid; and in every state a cell of the day grid is
  enabled, and has its handlers, exactly when its key is among the selectable keys.
\<close>

theorem dateRange_not_selectability:
  "selectableKeys (loadData today dv (st\<lparr> dateRange := r \<rparr>)) = selectableKeys (loadData today dv st)
   \<and> renderDayGrid (loadData today dv (st\<lparr> dateRange := r \<rparr>)) = renderDayGrid (loadData today dv st)
   \<and> list_all (\<lambda>c. clickable c = set_has (cellKey c) (selectableKeys st)
                   \<and> selectable c = set_has (cellKey c) (selectableKeys st))
        (renderDayGrid st)"
  by (simp add: loadData_dateRange renderDayGrid_dateRange list_all_iff)
     (simp add: renderDayGrid_def dayCell_def Let_def split: prod.splits)

end
